theory Spec2Isabelle
  imports Main
begin

unbundle bit_operations_syntax

section \<open>Python values the library works on\<close>

text \<open>
  The module \<^verbatim>\<open>bin/scr.py\<close> is modelled function by function. A Python \<^verbatim>\<open>str\<close> is a
  \<^typ>\<open>string\<close> whose characters are the code points below 256; a Python \<^verbatim>\<open>int\<close> is an
  \<^typ>\<open>int\<close>, with the interpreter's default limit of 4300 digits on conversions between
  the two. Every exception the module or the library calls it makes can raise is a
  value of the type \<open>error\<close>; a function that can raise returns \<open>error + 'a\<close>.
\<close>

datatype error =
    KeyError string
  | IndexError
  | ValueError string
  | TypeError string
  | ParamTypeError string
  | ParamValueError string
  | OSError string

subsection \<open>Characters: \<^verbatim>\<open>str.isdecimal\<close>, \<^verbatim>\<open>str.isspace\<close>, \<^verbatim>\<open>str.lower\<close>, \<^verbatim>\<open>str.upper\<close>\<close>

definition is_digit :: "char \<Rightarrow> bool" where
  "is_digit c = (48 \<le> (of_char c :: nat) \<and> (of_char c :: nat) \<le> 57)"

definition isdecimal :: "string \<Rightarrow> bool" where
  \<comment> \<open>\<^verbatim>\<open>s.isdecimal()\<close>: at least one character, and all of them decimal digits.\<close>
  "isdecimal s = (s \<noteq> [] \<and> list_all is_digit s)"

definition is_space :: "char \<Rightarrow> bool" where
  \<comment> \<open>the code points below 256 that \<^verbatim>\<open>str.isspace\<close> accepts\<close>
  "is_space c = ((of_char c :: nat) \<in> {9, 10, 11, 12, 13, 28, 29, 30, 31, 32, 133, 160})"

definition strip :: "string \<Rightarrow> string" where
  \<comment> \<open>\<^verbatim>\<open>s.strip()\<close>\<close>
  "strip s = rev (dropWhile is_space (rev (dropWhile is_space s)))"

definition lower_char :: "char \<Rightarrow> char" where
  "lower_char c =
     (let n = (of_char c :: nat)
      in if (65 \<le> n \<and> n \<le> 90) \<or> (192 \<le> n \<and> n \<le> 222 \<and> n \<noteq> 215)
         then char_of (n + 32) else c)"

definition lower :: "string \<Rightarrow> string" where
  \<comment> \<open>\<^verbatim>\<open>s.lower()\<close>\<close>
  "lower s = map lower_char s"

definition upper_char :: "char \<Rightarrow> string" where
  \<comment> \<open>\<^verbatim>\<open>c.upper()\<close>: the sharp s becomes two letters. The upper-case forms of the micro
      sign and of y with diaeresis lie above code point 255; the model leaves these two
      characters as they are.\<close>
  "upper_char c =
     (let n = (of_char c :: nat)
      in if (97 \<le> n \<and> n \<le> 122) \<or> (224 \<le> n \<and> n \<le> 254 \<and> n \<noteq> 247)
         then [char_of (n - 32)]
         else if n = 223 then ''SS'' else [c])"

definition upper :: "string \<Rightarrow> string" where
  \<comment> \<open>\<^verbatim>\<open>s.upper()\<close>\<close>
  "upper s = concat (map upper_char s)"

subsection \<open>\<^verbatim>\<open>str(i)\<close> and \<^verbatim>\<open>int(s)\<close>\<close>

definition digit_char :: "nat \<Rightarrow> char" where
  "digit_char d = char_of (48 + d)"

definition digit_val :: "char \<Rightarrow> nat" where
  "digit_val c = (of_char c :: nat) - 48"

fun str_nat :: "nat \<Rightarrow> string" where
  "str_nat n = (if n < 10 then [digit_char n] else str_nat (n div 10) @ [digit_char (n mod 10)])"

declare str_nat.simps [simp del]

definition int_max_str_digits :: nat where
  \<comment> \<open>the interpreter's default limit on the number of digits when an \<^verbatim>\<open>int\<close> is
      converted to or from a decimal string (\<^verbatim>\<open>sys.get_int_max_str_digits()\<close>)\<close>
  "int_max_str_digits = 4300"

definition str_limit_error :: error where
  "str_limit_error =
     ValueError (''Exceeds the limit ('' @ str_nat int_max_str_digits @
       '' digits) for integer string conversion; use sys.set_int_max_str_digits() to increase the limit'')"

definition int_limit_error :: "nat \<Rightarrow> error" where
  "int_limit_error n =
     ValueError (''Exceeds the limit ('' @ str_nat int_max_str_digits @
       '' digits) for integer string conversion: value has '' @ str_nat n @
       '' digits; use sys.set_int_max_str_digits() to increase the limit'')"

definition str_int :: "int \<Rightarrow> error + string" where
  \<comment> \<open>\<^verbatim>\<open>str(i)\<close> for an \<^verbatim>\<open>int\<close>: decimal digits, no leading zero, a minus sign when
      negative; \<^verbatim>\<open>ValueError\<close> when there are more digits than the limit\<close>
  "str_int i =
     (let d = str_nat (nat \<bar>i\<bar>)
      in if length d > int_max_str_digits then Inl str_limit_error
         else Inr (if i < 0 then CHR ''-'' # d else d))"

definition digits_value :: "string \<Rightarrow> nat" where
  "digits_value s = foldl (\<lambda>a c. 10 * a + digit_val c) 0 s"

fun underscores_ok :: "string \<Rightarrow> bool" where
  \<comment> \<open>no two underscores in a row, and none at the end\<close>
  "underscores_ok [] = True"
| "underscores_ok [c] = (c \<noteq> CHR ''_'')"
| "underscores_ok (c # d # r) = (\<not> (c = CHR ''_'' \<and> d = CHR ''_'') \<and> underscores_ok (d # r))"

definition py_int :: "string \<Rightarrow> error + int" where
  \<comment> \<open>\<^verbatim>\<open>int(s)\<close> in base 10. Surrounding whitespace is ignored and one sign is allowed.
      The digits and underscores that follow are scanned: a leading, doubled or trailing
      underscore is an invalid literal; then more digits than the limit raise; then
      anything left over, or no digit at all, is an invalid literal. All raise
      \<^verbatim>\<open>ValueError\<close>.\<close>
  "py_int s =
     (let t = strip s;
          neg = (t \<noteq> [] \<and> hd t = CHR ''-'');
          body = (if t \<noteq> [] \<and> (hd t = CHR ''-'' \<or> hd t = CHR ''+'') then tl t else t);
          scanned = takeWhile (\<lambda>c. is_digit c \<or> c = CHR ''_'') body;
          digits = filter is_digit scanned;
          invalid = Inl (ValueError (''invalid literal for int() with base 10: '' @
                      CHR 0x27 # s @ [CHR 0x27]))
      in if body \<noteq> [] \<and> hd body = CHR ''_'' then invalid
         else if \<not> underscores_ok scanned then invalid
         else if length digits > int_max_str_digits then Inl (int_limit_error (length digits))
         else if scanned = [] \<or> scanned \<noteq> body then invalid
         else Inr ((if neg then - 1 else 1) * int (digits_value digits)))"

subsection \<open>\<^verbatim>\<open>str.split(sep)\<close> for a one-character separator, and \<^verbatim>\<open>sep.join\<close>\<close>

fun split_on :: "char \<Rightarrow> string \<Rightarrow> string list" where
  "split_on sep [] = [[]]"
| "split_on sep (c # cs) =
     (if c = sep then [] # split_on sep cs
      else (case split_on sep cs of
              [] \<Rightarrow> [[c]]
            | seg # segs \<Rightarrow> (c # seg) # segs))"

fun str_join :: "string \<Rightarrow> string list \<Rightarrow> string" where
  "str_join sep [] = []"
| "str_join sep [x] = x"
| "str_join sep (x # y # ys) = x @ sep @ str_join sep (y # ys)"

section \<open>Version strings: \<^verbatim>\<open>semver_to_vsn\<close> and \<^verbatim>\<open>vsn_to_semver\<close>\<close>

fun semver_gen :: "string list \<Rightarrow> error + int list" where
  \<comment> \<open>the generator \<^verbatim>\<open>int(s) for s in ... if s.isdecimal()\<close>, collected into a tuple\<close>
  "semver_gen [] = Inr []"
| "semver_gen (s # ss) =
     (if isdecimal s
      then (case py_int s of
              Inl e \<Rightarrow> Inl e
            | Inr i \<Rightarrow> (case semver_gen ss of Inl e \<Rightarrow> Inl e | Inr r \<Rightarrow> Inr (i # r)))
      else semver_gen ss)"

definition semver_to_vsn :: "string \<Rightarrow> error + int list" where
  "semver_to_vsn vstr = semver_gen (split_on CHR ''.'' vstr)"

fun vsn_gen :: "int list \<Rightarrow> error + string list" where
  \<comment> \<open>the generator \<^verbatim>\<open>str(i) for i in vsn\<close>, consumed by \<^verbatim>\<open>join\<close>\<close>
  "vsn_gen [] = Inr []"
| "vsn_gen (i # r) =
     (case str_int i of
        Inl e \<Rightarrow> Inl e
      | Inr d \<Rightarrow> (case vsn_gen r of Inl e \<Rightarrow> Inl e | Inr ds \<Rightarrow> Inr (d # ds)))"

definition vsn_to_semver :: "int list \<Rightarrow> error + string" where
  "vsn_to_semver vsn =
     (case vsn_gen vsn of Inl e \<Rightarrow> Inl e | Inr ds \<Rightarrow> Inr (str_join ''.'' ds))"

definition parse_format :: "int list \<Rightarrow> error + int list" where
  \<comment> \<open>the expression \<^verbatim>\<open>semver_to_vsn(vsn_to_semver(v))\<close>\<close>
  "parse_format v = (case vsn_to_semver v of Inl e \<Rightarrow> Inl e | Inr t \<Rightarrow> semver_to_vsn t)"

section \<open>The process the module runs in\<close>

text \<open>
  What \<^verbatim>\<open>os.stat\<close> and \<^verbatim>\<open>os.access\<close> report for a path: the identity of the file
  (device and inode, which \<^verbatim>\<open>os.path.samefile\<close> compares), its type, the access bits
  granted to this process (a mask of \<^verbatim>\<open>R_OK | W_OK | X_OK\<close>) and, for \<^verbatim>\<open>read_file\<close>,
  its text.
\<close>

datatype ftype = Dir | Reg | Other

record node =
  st_dev :: nat
  st_ino :: nat
  kind :: ftype
  allowed :: nat
  content :: string

datatype handler = FileHandler string string string string

text \<open>
  The state holds the module's globals (the pseudo-constants and \<^verbatim>\<open>debug\<close>) and the
  parts of the process the module reads or changes: \<^verbatim>\<open>sys.argv[0]\<close>, the working
  directory, the home directories \<^verbatim>\<open>expanduser\<close> consults (the empty name stands for the
  current user), the file system as a map from the path strings handed to the operating
  system to what it finds there (following symbolic links, so several strings may lead to
  one node), the access bits of a directory and of a file this process creates and the
  inode the next one gets, \<^verbatim>\<open>sys.path\<close>, and the logging package's disable threshold, root level and root
  handlers.
\<close>

record state =
  BIN_DIR :: string
  CUR_DIR :: string
  ETC_DIR :: string
  LIB_DIR :: string
  LOG_DIR :: string
  REL_DIR :: string
  SCH_DIR :: string
  PROG_NAME :: string
  debug :: bool
  argv0 :: string
  cwd :: string
  user_home :: "string \<Rightarrow> string option"
  fs :: "string \<Rightarrow> node option"
  mkdir_allowed :: nat
  open_allowed :: nat
  next_ino :: nat
  sys_path :: "string list"
  log_disable :: int
  root_level :: int
  root_handlers :: "handler list"

definition R_OK :: nat where "R_OK = 4"
definition W_OK :: nat where "W_OK = 2"
definition X_OK :: nat where "X_OK = 1"

definition path_exists :: "state \<Rightarrow> string \<Rightarrow> bool" where
  \<comment> \<open>\<^verbatim>\<open>os.path.exists\<close>\<close>
  "path_exists s p = (fs s p \<noteq> None)"

definition isdir :: "state \<Rightarrow> string \<Rightarrow> bool" where
  \<comment> \<open>\<^verbatim>\<open>os.path.isdir\<close>\<close>
  "isdir s p = (case fs s p of None \<Rightarrow> False | Some n \<Rightarrow> kind n = Dir)"

definition isfile :: "state \<Rightarrow> string \<Rightarrow> bool" where
  \<comment> \<open>\<^verbatim>\<open>os.path.isfile\<close>\<close>
  "isfile s p = (case fs s p of None \<Rightarrow> False | Some n \<Rightarrow> kind n = Reg)"

definition access :: "state \<Rightarrow> string \<Rightarrow> nat \<Rightarrow> bool" where
  \<comment> \<open>\<^verbatim>\<open>os.access(p, mode)\<close>: every requested bit is granted\<close>
  "access s p mode = (case fs s p of None \<Rightarrow> False | Some n \<Rightarrow> mode AND allowed n = mode)"

definition samefile :: "state \<Rightarrow> string \<Rightarrow> string \<Rightarrow> error + bool" where
  \<comment> \<open>\<^verbatim>\<open>os.path.samefile\<close>: both paths are looked up, and a missing one raises\<close>
  "samefile s a b =
     (case fs s a of
        None \<Rightarrow> Inl (OSError (''FileNotFoundError: '' @ a))
      | Some x \<Rightarrow>
          (case fs s b of
             None \<Rightarrow> Inl (OSError (''FileNotFoundError: '' @ b))
           | Some y \<Rightarrow> Inr (st_ino x = st_ino y \<and> st_dev x = st_dev y)))"

subsection \<open>\<^verbatim>\<open>os.path\<close> on a POSIX system\<close>

definition startswith :: "string \<Rightarrow> string \<Rightarrow> bool" where
  "startswith s p = (take (length p) s = p)"

definition rstrip_slash :: "string \<Rightarrow> string" where
  \<comment> \<open>\<^verbatim>\<open>s.rstrip('/')\<close>\<close>
  "rstrip_slash s = rev (dropWhile (\<lambda>c. c = CHR ''/'') (rev s))"

definition isabs :: "string \<Rightarrow> bool" where
  "isabs p = startswith p ''/''"

definition path_join :: "string \<Rightarrow> string \<Rightarrow> string" where
  \<comment> \<open>\<^verbatim>\<open>os.path.join(a, b)\<close>\<close>
  "path_join a b =
     (if startswith b ''/'' \<or> a = [] then b
      else if last a = CHR ''/'' then a @ b
      else a @ ''/'' @ b)"

definition dirname :: "string \<Rightarrow> string" where
  \<comment> \<open>\<^verbatim>\<open>os.path.dirname\<close>: up to and including the last slash, then without trailing
      slashes unless it consists of slashes only\<close>
  "dirname p =
     (let head = rev (dropWhile (\<lambda>c. c \<noteq> CHR ''/'') (rev p))
      in if head \<noteq> [] \<and> head \<noteq> replicate (length head) CHR ''/'' then rstrip_slash head
         else head)"

definition basename :: "string \<Rightarrow> string" where
  \<comment> \<open>\<^verbatim>\<open>os.path.basename\<close>: what follows the last slash\<close>
  "basename p = rev (takeWhile (\<lambda>c. c \<noteq> CHR ''/'') (rev p))"

fun norm_comps :: "nat \<Rightarrow> string list \<Rightarrow> string list \<Rightarrow> string list" where
  \<comment> \<open>the loop of \<^verbatim>\<open>normpath\<close> over the components, \<open>acc\<close> being \<^verbatim>\<open>new_comps\<close>\<close>
  "norm_comps initial_slashes [] acc = acc"
| "norm_comps initial_slashes (cmp # comps) acc =
     (if cmp = [] \<or> cmp = ''.'' then norm_comps initial_slashes comps acc
      else if cmp \<noteq> ''..'' \<or> (initial_slashes = 0 \<and> acc = []) \<or> (acc \<noteq> [] \<and> last acc = ''..'')
      then norm_comps initial_slashes comps (acc @ [cmp])
      else if acc \<noteq> [] then norm_comps initial_slashes comps (butlast acc)
      else norm_comps initial_slashes comps acc)"

definition normpath :: "string \<Rightarrow> string" where
  \<comment> \<open>\<^verbatim>\<open>os.path.normpath\<close>: empty and \<^verbatim>\<open>.\<close> components go, \<^verbatim>\<open>..\<close> removes the
      component before it, exactly two leading slashes are kept\<close>
  "normpath path =
     (if path = [] then ''.''
      else
        let initial_slashes =
              (if startswith path ''/''
               then (if startswith path ''//'' \<and> \<not> startswith path ''///'' then 2 else 1)
               else 0);
            comps = norm_comps initial_slashes (split_on CHR ''/'' path) [];
            joined = replicate initial_slashes CHR ''/'' @ str_join ''/'' comps
        in if joined = [] then ''.'' else joined)"

definition abspath :: "state \<Rightarrow> string \<Rightarrow> string" where
  \<comment> \<open>\<^verbatim>\<open>os.path.abspath\<close>\<close>
  "abspath s path = normpath (if isabs path then path else path_join (cwd s) path)"

definition expanduser :: "state \<Rightarrow> string \<Rightarrow> string" where
  \<comment> \<open>\<^verbatim>\<open>os.path.expanduser\<close>: \<^verbatim>\<open>~\<close> or \<^verbatim>\<open>~name\<close> up to the first slash is replaced by
      the home directory without its trailing slashes; unchanged when the home is unknown\<close>
  "expanduser s path =
     (if \<not> startswith path ''~'' then path
      else
        let i = length (takeWhile (\<lambda>c. c \<noteq> CHR ''/'') path)
        in (case user_home s (take (i - 1) (drop 1 path)) of
              None \<Rightarrow> path
            | Some userhome \<Rightarrow>
                (let r = rstrip_slash userhome @ drop i path
                 in if r = [] then ''/'' else r)))"

subsection \<open>Files and directories\<close>

definition os_mkdir :: "state \<Rightarrow> string \<Rightarrow> error + state" where
  \<comment> \<open>\<^verbatim>\<open>os.mkdir(p)\<close>: one directory is created, inside a parent that must already be a
      directory this process may write to and search. The parent is looked up as
      \<^verbatim>\<open>dirname(p)\<close>, which is the parent for the absolute paths without a trailing slash
      that the module passes.\<close>
  "os_mkdir s p =
     (case fs s p of
        Some n \<Rightarrow> Inl (OSError (''FileExistsError: '' @ p))
      | None \<Rightarrow>
          (case fs s (dirname p) of
             None \<Rightarrow> Inl (OSError (''FileNotFoundError: '' @ p))
           | Some parent \<Rightarrow>
               if kind parent \<noteq> Dir then Inl (OSError (''NotADirectoryError: '' @ p))
               else if (W_OK OR X_OK) AND allowed parent \<noteq> (W_OK OR X_OK)
               then Inl (OSError (''PermissionError: '' @ p))
               else Inr (s\<lparr>fs := (fs s)(p \<mapsto>
                      \<lparr>st_dev = st_dev parent, st_ino = next_ino s, kind = Dir,
                       allowed = mkdir_allowed s, content = []\<rparr>),
                    next_ino := Suc (next_ino s)\<rparr>)))"

definition os_open_append :: "state \<Rightarrow> string \<Rightarrow> error + state" where
  \<comment> \<open>\<^verbatim>\<open>open(p, 'at')\<close>, as far as the file system goes: an existing file must be one the
      process may write; a missing one is created, empty, inside a parent that must be a
      directory this process may write to and search\<close>
  "os_open_append s p =
     (case fs s p of
        Some n \<Rightarrow>
          if kind n = Dir then Inl (OSError (''IsADirectoryError: '' @ p))
          else if W_OK AND allowed n \<noteq> W_OK then Inl (OSError (''PermissionError: '' @ p))
          else Inr s
      | None \<Rightarrow>
          (case fs s (dirname p) of
             None \<Rightarrow> Inl (OSError (''FileNotFoundError: '' @ p))
           | Some parent \<Rightarrow>
               if kind parent \<noteq> Dir then Inl (OSError (''NotADirectoryError: '' @ p))
               else if (W_OK OR X_OK) AND allowed parent \<noteq> (W_OK OR X_OK)
               then Inl (OSError (''PermissionError: '' @ p))
               else Inr (s\<lparr>fs := (fs s)(p \<mapsto>
                      \<lparr>st_dev = st_dev parent, st_ino = next_ino s, kind = Reg,
                       allowed = open_allowed s, content = []\<rparr>),
                    next_ino := Suc (next_ino s)\<rparr>)))"

definition read_file :: "state \<Rightarrow> string \<Rightarrow> error + string" where
  \<comment> \<open>\<^verbatim>\<open>open(path, 'rt').read()\<close>\<close>
  "read_file s path =
     (case fs s path of
        None \<Rightarrow> Inl (OSError (''FileNotFoundError: '' @ path))
      | Some n \<Rightarrow>
          if kind n = Dir then Inl (OSError (''IsADirectoryError: '' @ path))
          else if R_OK AND allowed n \<noteq> R_OK then Inl (OSError (''PermissionError: '' @ path))
          else Inr (content n))"

section \<open>Parameter errors and the validators\<close>

definition quoted :: "string \<Rightarrow> string" where
  \<comment> \<open>the path between single quotes, as the messages show it\<close>
  "quoted p = CHR 0x27 # p @ [CHR 0x27]"

definition raise_param_error :: "state \<Rightarrow> string \<Rightarrow> bool \<Rightarrow> error" where
  \<comment> \<open>the exception \<^verbatim>\<open>raise_param_error(msg, bad_type)\<close> raises; it never returns\<close>
  "raise_param_error s msg bad_type =
     (if debug s
      then (if bad_type then ParamTypeError msg else ParamValueError msg)
      else (if bad_type then TypeError msg else ValueError msg))"

definition ReadableAbsDir :: "state \<Rightarrow> string \<Rightarrow> error + string" where
  "ReadableAbsDir s path =
     (if \<not> isdir s path
      then Inl (raise_param_error s (''not a directory: '' @ quoted path) False)
      else if \<not> access s path W_OK
      then Inl (raise_param_error s (''insufficient directory permissions: '' @ quoted path) False)
      else Inr path)"

definition ReadableAbsFile :: "state \<Rightarrow> string \<Rightarrow> error + string" where
  "ReadableAbsFile s path =
     (if \<not> (isfile s path \<and> access s path R_OK)
      then Inl (raise_param_error s (''not a readable file: '' @ quoted path) False)
      else Inr path)"

definition ReadableDir :: "state \<Rightarrow> string \<Rightarrow> error + string" where
  "ReadableDir s path = ReadableAbsDir s (abspath s (expanduser s path))"

definition ReadableFile :: "state \<Rightarrow> string \<Rightarrow> error + string" where
  "ReadableFile s path = ReadableAbsFile s (abspath s (expanduser s path))"

definition PossibleFile :: "state \<Rightarrow> string \<Rightarrow> error + string" where
  "PossibleFile s path =
     (let fp = abspath s (expanduser s path)
      in if path_exists s fp
         then (if \<not> isfile s fp
               then Inl (raise_param_error s (''exists but not a file: '' @ quoted fp) False)
               else if \<not> (access s fp R_OK \<or> access s fp W_OK)
               then Inl (raise_param_error s (''insufficient file permissions: '' @ quoted fp) False)
               else Inr fp)
         else (let dp = dirname fp
               in if \<not> isdir s dp
                  then Inl (raise_param_error s (''not a directory: '' @ quoted dp) False)
                  else if \<not> access s dp W_OK
                  then Inl (raise_param_error s
                              (''insufficient directory permissions: '' @ quoted dp) False)
                  else Inr fp))"

fun split_ws :: "string \<Rightarrow> string \<Rightarrow> string list" where
  \<comment> \<open>\<^verbatim>\<open>s.split()\<close>: the maximal runs of characters that are not whitespace; the first
      argument is the run being read\<close>
  "split_ws cur [] = (if cur = [] then [] else [cur])"
| "split_ws cur (c # cs) =
     (if is_space c
      then (if cur = [] then split_ws [] cs else cur # split_ws [] cs)
      else split_ws (cur @ [c]) cs)"

definition names_of :: "string \<Rightarrow> string list" where
  \<comment> \<open>\<^verbatim>\<open>param.replace(',', ' ').split()\<close>\<close>
  "names_of param = split_ws [] (map (\<lambda>c. if c = CHR '','' then CHR '' '' else c) param)"

definition NamesListOrFile :: "state \<Rightarrow> string \<Rightarrow> error + string list" where
  "NamesListOrFile s param =
     (if startswith param ''@''
      then (case ReadableFile s (drop 1 param) of
              Inl e \<Rightarrow> Inl e
            | Inr f \<Rightarrow> (case read_file s f of Inl e \<Rightarrow> Inl e | Inr text \<Rightarrow> Inr (names_of text)))
      else Inr (names_of param))"

section \<open>Configuration paths: \<^verbatim>\<open>resolve_conf_path\<close>\<close>

definition fspath_seps :: string where
  \<comment> \<open>\<^verbatim>\<open>_fspath_seps\<close> where \<^verbatim>\<open>os.altsep\<close> is \<^verbatim>\<open>None\<close>: \<^verbatim>\<open>os.sep\<close> alone\<close>
  "fspath_seps = ''/''"

fun py_index :: "string \<Rightarrow> string \<Rightarrow> nat option" where
  \<comment> \<open>\<^verbatim>\<open>path.index(sub)\<close>: where \<open>sub\<close> first occurs; \<open>None\<close> stands for the
      \<^verbatim>\<open>ValueError\<close> of a string without it\<close>
  "py_index [] sub = (if sub = [] then Some 0 else None)"
| "py_index (c # cs) sub =
     (if startswith (c # cs) sub then Some 0 else map_option Suc (py_index cs sub))"

definition stache_map :: "state \<Rightarrow> string \<Rightarrow> string option" where
  "stache_map s =
     map_of [(''bin'', BIN_DIR s), (''etc'', ETC_DIR s), (''lib'', LIB_DIR s),
             (''log'', LOG_DIR s), (''prog'', PROG_NAME s), (''rel'', REL_DIR s),
             (''schema'', SCH_DIR s)]"

definition resolve_conf_path :: "state \<Rightarrow> string \<Rightarrow> error + string" where
  "resolve_conf_path s path =
     (if startswith path ''~'' then Inr (abspath s (expanduser s path))
      else if startswith path ''{{''
      then (case py_index path ''}}'' of
              None \<Rightarrow> Inl (ValueError ''substring not found'')
            | Some subend \<Rightarrow>
                (let substr = lower (strip (take (subend - 2) (drop 2 path)))
                 in case stache_map s substr of
                      None \<Rightarrow> Inl (KeyError substr)
                    | Some repl \<Rightarrow>
                        (let tail = drop (subend + 2) path
                         in case tail of
                              [] \<Rightarrow> Inl IndexError
                            | t0 # _ \<Rightarrow>
                                if t0 \<in> set fspath_seps then Inr (abspath s (repl @ tail))
                                else Inr (abspath s (path_join repl tail)))))
      else Inr (abspath s path))"

section \<open>Logging: \<^verbatim>\<open>init_log\<close>\<close>

definition NOTSET :: int where "NOTSET = 0"
definition DEBUG :: int where "DEBUG = 10"
definition INFO :: int where "INFO = 20"
definition WARNING :: int where "WARNING = 30"
definition ERROR :: int where "ERROR = 40"
definition CRITICAL :: int where "CRITICAL = 50"

definition LOG_LEVELS :: "string \<Rightarrow> int option" where
  "LOG_LEVELS =
     map_of [(''ALL'', NOTSET), (''DEBUG'', DEBUG), (''INFO'', INFO), (''WARNING'', WARNING),
             (''ERROR'', ERROR), (''CRITICAL'', CRITICAL), (''NONE'', - 1)]"

definition logging_disable :: "state \<Rightarrow> int \<Rightarrow> state" where
  \<comment> \<open>\<^verbatim>\<open>logging.disable(level)\<close> sets the threshold at or below which every call is dropped\<close>
  "logging_disable s level = s\<lparr>log_disable := level\<rparr>"

definition isEnabledFor :: "state \<Rightarrow> int \<Rightarrow> bool" where
  \<comment> \<open>\<^verbatim>\<open>Logger.isEnabledFor(level)\<close> of the root logger: a call at \<open>level\<close> is dropped when
      the disable threshold is at least \<open>level\<close>, and otherwise when it is below the
      logger's level\<close>
  "isEnabledFor s level = (if log_disable s \<ge> level then False else level \<ge> root_level s)"

definition basicConfig :: "state \<Rightarrow> string \<Rightarrow> int \<Rightarrow> error + state" where
  \<comment> \<open>\<^verbatim>\<open>logging.basicConfig(filename=..., filemode='at', format=..., datefmt=..., level=...)\<close>:
      nothing when the root logger has a handler already. Otherwise a \<^verbatim>\<open>FileHandler\<close> is
      built on the absolute form of the file name and opens that file at once, for
      appending, which creates it when it is missing and can raise; then the handler is
      added to the root logger and the level is set.\<close>
  "basicConfig s filename level =
     (if root_handlers s \<noteq> [] then Inr s
      else (let baseFilename = abspath s filename
            in case os_open_append s baseFilename of
                 Inl e \<Rightarrow> Inl e
               | Inr s1 \<Rightarrow>
                   Inr (s1\<lparr>root_handlers :=
                              [FileHandler baseFilename ''at''
                                 ''%(asctime)s %(levelname)-7s %(message)s''
                                 ''%Y-%m-%d %H:%M:%S''],
                            root_level := level\<rparr>)))"

definition init_log_dir ::
  "state \<Rightarrow> int \<Rightarrow> string \<Rightarrow> string option \<Rightarrow> (error + unit) \<times> state" where
  \<comment> \<open>\<^verbatim>\<open>init_log\<close> from the point where \<^verbatim>\<open>logdir\<close> is settled (source lines 257 to 270)\<close>
  "init_log_dir s loglevel logdir logname =
     (case (if \<not> isdir s logdir
            then (if path_exists s logdir
                  then Inl (raise_param_error s (''not a directory: '' @ quoted logdir) False)
                  else os_mkdir s logdir)
            else Inr s) of
        Inl e \<Rightarrow> (Inl e, s)
      | Inr s1 \<Rightarrow>
          if \<not> access s1 logdir (R_OK OR W_OK OR X_OK)
          then (Inl (raise_param_error s1
                       (''insufficient directory permissions: '' @ quoted logdir) False), s1)
          else (let name = (case logname of
                              None \<Rightarrow> PROG_NAME s1
                            | Some n \<Rightarrow> if n = [] then PROG_NAME s1 else n);
                    logfile = path_join logdir (name @ ''.log'')
                in case basicConfig s1 logfile loglevel of
                     Inl e \<Rightarrow> (Inl e, s1)
                   | Inr s2 \<Rightarrow> (Inr (), s2)))"

definition init_log ::
  "state \<Rightarrow> string \<Rightarrow> string option \<Rightarrow> string option \<Rightarrow> (error + unit) \<times> state" where
  \<comment> \<open>the result, and the state the call leaves behind (also when it raises)\<close>
  "init_log s level logdir logname =
     (case LOG_LEVELS (upper level) of
        None \<Rightarrow> (Inl (KeyError (upper level)), s)
      | Some loglevel \<Rightarrow>
          if loglevel < 0 then (Inr (), logging_disable s ((2 XOR 31) - 1))
          else (case logdir of
                  None \<Rightarrow> init_log_dir s loglevel (LOG_DIR s) logname
                | Some d \<Rightarrow>
                    if d = [] then init_log_dir s loglevel (LOG_DIR s) logname
                    else (case resolve_conf_path s d of
                            Inl e \<Rightarrow> (Inl e, s)
                          | Inr r \<Rightarrow> init_log_dir (s\<lparr>LOG_DIR := r\<rparr>) loglevel r logname)))"

section \<open>Initialization: \<^verbatim>\<open>_init_module\<close>\<close>

fun sp_scan :: "state \<Rightarrow> string \<Rightarrow> string list \<Rightarrow> error + bool" where
  \<comment> \<open>the loop over \<^verbatim>\<open>sys.path\<close>: \<open>True\<close> when an entry is the same file as \<open>libdir\<close>,
      where the source returns\<close>
  "sp_scan s libdir [] = Inr False"
| "sp_scan s libdir (d # ds) =
     (if path_exists s d
      then (case samefile s d libdir of
              Inl e \<Rightarrow> Inl e
            | Inr same \<Rightarrow> if same then Inr True else sp_scan s libdir ds)
      else sp_scan s libdir ds)"

definition init_sys_path :: "state \<Rightarrow> string \<Rightarrow> string \<Rightarrow> (error + unit) \<times> state" where
  \<comment> \<open>the body of the last \<^verbatim>\<open>if\<close> of \<^verbatim>\<open>_init_module\<close> (source lines 310 to 324)\<close>
  "init_sys_path s bindir libdir =
     (case sp_scan s libdir (sys_path s) of
        Inl e \<Rightarrow> (Inl e, s)
      | Inr found \<Rightarrow>
          if found then (Inr (), s)
          else (case sys_path s of
                  [] \<Rightarrow> (Inl IndexError, s)
                | sp0 # rest \<Rightarrow>
                    if path_exists s sp0
                    then (case samefile s sp0 bindir of
                            Inl e \<Rightarrow> (Inl e, s)
                          | Inr same \<Rightarrow>
                              if same then (Inr (), s\<lparr>sys_path := sp0 # libdir # rest\<rparr>)
                              else (Inr (), s\<lparr>sys_path := sys_path s @ [libdir]\<rparr>))
                    else (Inr (), s\<lparr>sys_path := sys_path s @ [libdir]\<rparr>)))"

definition init_module :: "state \<Rightarrow> (error + unit) \<times> state" where
  "init_module s =
     (let script = abspath s (argv0 s);
          bindir = dirname script;
          reldir = dirname bindir;
          libdir = path_join reldir ''lib'';
          s1 = s\<lparr>BIN_DIR := bindir, CUR_DIR := cwd s, ETC_DIR := path_join reldir ''etc'',
                 LIB_DIR := libdir, LOG_DIR := path_join reldir ''log'', REL_DIR := reldir,
                 SCH_DIR := path_join reldir ''schema'', PROG_NAME := basename script\<rparr>
      in if isdir s1 libdir \<and> access s1 libdir (R_OK OR X_OK)
         then init_sys_path s1 bindir libdir
         else (Inr (), s1))"

section \<open>The version strings as the specification words them\<close>

text \<open>
  The specification describes parsing as: split on the dot, keep the segments that are purely
  decimal digits, take the integer value of each, in order. These definitions follow those
  words; the theorems below compare them with \<^verbatim>\<open>semver_to_vsn\<close> as the source has it.
\<close>

definition purely_decimal :: "string \<Rightarrow> bool" where
  "purely_decimal g = (g \<noteq> [] \<and> set g \<subseteq> set ''0123456789'')"

fun decimal_value :: "string \<Rightarrow> int" where
  "decimal_value [] = 0"
| "decimal_value (c # cs) = int (digit_val c) * 10 ^ length cs + decimal_value cs"

definition is_split_on :: "char \<Rightarrow> string \<Rightarrow> string list \<Rightarrow> bool" where
  "is_split_on sep s segs =
     (segs \<noteq> [] \<and> list_all (\<lambda>g. sep \<notin> set g) segs \<and> str_join [sep] segs = s)"

definition strip_zeros :: "string \<Rightarrow> string" where
  "strip_zeros g = (let r = dropWhile (\<lambda>c. c = CHR ''0'') g in if r = [] then ''0'' else r)"

section \<open>A concrete process\<close>

text \<open>
  An installation under \<^verbatim>\<open>/opt/riak\<close>, used to evaluate the functions on concrete inputs.
  \<^verbatim>\<open>/srv/riak\<close> is a symbolic link to \<^verbatim>\<open>/opt/riak\<close>, \<^verbatim>\<open>/var/wo\<close> a directory that may be
  written but not read, \<^verbatim>\<open>/var/ro\<close> one that may be read but not written.
\<close>

definition dir_node :: "nat \<Rightarrow> nat \<Rightarrow> node" where
  "dir_node ino bits = \<lparr>st_dev = 1, st_ino = ino, kind = Dir, allowed = bits, content = []\<rparr>"

definition file_node :: "nat \<Rightarrow> nat \<Rightarrow> string \<Rightarrow> node" where
  "file_node ino bits text = \<lparr>st_dev = 1, st_ino = ino, kind = Reg, allowed = bits, content = text\<rparr>"

definition demo_fs :: "string \<Rightarrow> node option" where
  "demo_fs =
     map_of [(''/'', dir_node 2 5),
             (''/opt/riak'', dir_node 10 7),
             (''/opt/riak/bin'', dir_node 11 7),
             (''/opt/riak/lib'', dir_node 12 5),
             (''/srv/riak'', dir_node 10 7),
             (''/srv/riak/bin'', dir_node 11 7),
             (''/srv/riak/lib'', dir_node 12 5),
             (''/opt/riak/etc'', dir_node 13 7),
             (''/opt/riak/etc/names.txt'', file_node 14 4 ''alpha,beta  gamma''),
             (''/opt/riak/bin/riak-admin'', file_node 15 5 []),
             (''/usr/lib/python3'', dir_node 16 5),
             (''/var/wo'', dir_node 17 2),
             (''/var/ro'', dir_node 18 5),
             (''/home/riak'', dir_node 19 7)]"

definition demo :: state where
  "demo =
     \<lparr>BIN_DIR = [], CUR_DIR = [], ETC_DIR = [], LIB_DIR = [], LOG_DIR = [], REL_DIR = [],
      SCH_DIR = [], PROG_NAME = [], debug = False,
      argv0 = ''bin/riak-admin'', cwd = ''/opt/riak'',
      user_home = map_of [([], ''/home/riak''), (''riak'', ''/home/riak'')],
      fs = demo_fs, mkdir_allowed = 7, open_allowed = 6, next_ino = 100,
      sys_path = [''/opt/riak/bin'', ''/usr/lib/python3'', ''/gone''],
      log_disable = 0, root_level = WARNING, root_handlers = []\<rparr>"

definition booted :: state where
  \<comment> \<open>the process once the module is imported\<close>
  "booted = snd (init_module demo)"

section \<open>Notions the specification uses\<close>

fun message :: "error \<Rightarrow> string" where
  \<comment> \<open>the message text an exception carries\<close>
  "message (KeyError m) = m"
| "message IndexError = []"
| "message (ValueError m) = m"
| "message (TypeError m) = m"
| "message (ParamTypeError m) = m"
| "message (ParamValueError m) = m"
| "message (OSError m) = m"

fun generic :: "error \<Rightarrow> error" where
  \<comment> \<open>the built-in kind a parameter error collapses to when \<^verbatim>\<open>debug\<close> is off\<close>
  "generic (ParamTypeError m) = TypeError m"
| "generic (ParamValueError m) = ValueError m"
| "generic e = e"

definition same_but_kind :: "error + 'a \<Rightarrow> error + 'a \<Rightarrow> bool" where
  \<comment> \<open>the outcome with \<^verbatim>\<open>debug\<close> on against the outcome with \<^verbatim>\<open>debug\<close> off: the same
      value, or failures with the same message that differ in the kind at most\<close>
  "same_but_kind on off =
     (case on of
        Inr v \<Rightarrow> off = Inr v
      | Inl e \<Rightarrow> (case off of Inr w \<Rightarrow> False | Inl f \<Rightarrow> message f = message e \<and> f = generic e))"

definition same_dir :: "state \<Rightarrow> string \<Rightarrow> string \<Rightarrow> bool" where
  \<comment> \<open>filesystem identity: both paths exist and lead to one file\<close>
  "same_dir s a b =
     (case fs s a of
        None \<Rightarrow> False
      | Some x \<Rightarrow> (case fs s b of None \<Rightarrow> False | Some y \<Rightarrow> st_ino x = st_ino y \<and> st_dev x = st_dev y))"

definition logfile_of :: "state \<Rightarrow> string \<Rightarrow> string option \<Rightarrow> string" where
  \<comment> \<open>the file the handler of \<^verbatim>\<open>init_log\<close> opens: \<^verbatim>\<open><logname or program name>.log\<close> inside
      the log directory, made absolute\<close>
  "logfile_of s logdir logname =
     abspath s (path_join logdir
       ((case logname of None \<Rightarrow> PROG_NAME s | Some n \<Rightarrow> if n = [] then PROG_NAME s else n)
        @ ''.log''))"


definition token_keys :: "string set" where
  \<comment> \<open>the seven placeholder tokens\<close>
  "token_keys = {''bin'', ''etc'', ''lib'', ''log'', ''prog'', ''rel'', ''schema''}"

definition plain :: "string \<Rightarrow> bool" where
  \<comment> \<open>a path component that names something: not empty, not \<^verbatim>\<open>.\<close>, not \<^verbatim>\<open>..\<close>\<close>
  "plain c = (c \<noteq> [] \<and> c \<noteq> ''.'' \<and> c \<noteq> ''..'')"

definition canonical_abs :: "string \<Rightarrow> bool" where
  \<comment> \<open>a canonical absolute path: one or two leading slashes, then plain components with one
      slash between two of them and none at the end\<close>
  "canonical_abs p =
     (let n = length (takeWhile (\<lambda>c. c = CHR ''/'') p);
          body = dropWhile (\<lambda>c. c = CHR ''/'') p
      in (n = 1 \<or> n = 2) \<and> (body = [] \<or> list_all plain (split_on CHR ''/'' body)))"

definition rooted :: state where
  \<comment> \<open>the process of a program installed in \<^verbatim>\<open>/bin\<close>, once the module is imported: the
      release root is the root directory\<close>
  "rooted = snd (init_module (demo\<lparr>argv0 := ''/bin/riak-admin''\<rparr>))"

section \<open>Properties of the version strings\<close>

lemma is_digit_digit_char: "d < 10 \<Longrightarrow> is_digit (digit_char d)"
  by (simp add: is_digit_def digit_char_def)

lemma digit_val_digit_char: "d < 10 \<Longrightarrow> digit_val (digit_char d) = d"
  by (simp add: digit_val_def digit_char_def)

lemma digit_char_val: "is_digit c \<Longrightarrow> digit_char (digit_val c) = c"
  by (auto simp add: is_digit_def digit_char_def digit_val_def)

lemma str_nat_nonempty: "str_nat n \<noteq> []"
  by (subst str_nat.simps) simp

lemma str_nat_digits: "list_all is_digit (str_nat n)"
proof (induction n rule: str_nat.induct)
  case (1 n)
  show ?case
  proof (cases "n < 10")
    case True
    then show ?thesis by (subst str_nat.simps) (simp add: is_digit_digit_char)
  next
    case False
    with 1 show ?thesis by (subst str_nat.simps) (simp add: is_digit_digit_char)
  qed
qed

lemma isdecimal_str_nat: "isdecimal (str_nat n)"
  by (simp add: isdecimal_def str_nat_nonempty str_nat_digits)

lemma digits_value_snoc: "digits_value (s @ [c]) = 10 * digits_value s + digit_val c"
  by (simp add: digits_value_def)

lemma digits_value_str_nat: "digits_value (str_nat n) = n"
proof (induction n rule: str_nat.induct)
  case (1 n)
  show ?case
  proof (cases "n < 10")
    case True
    then show ?thesis by (subst str_nat.simps) (simp add: digits_value_def digit_val_digit_char)
  next
    case False
    with 1 show ?thesis
      by (subst str_nat.simps) (simp add: digits_value_snoc digit_val_digit_char)
  qed
qed

lemma is_digit_not_space: "is_digit c \<Longrightarrow> \<not> is_space c"
  by (auto simp add: is_digit_def is_space_def)

lemma dropWhile_space_digits: "list_all is_digit s \<Longrightarrow> dropWhile is_space s = s"
  by (cases s) (simp_all add: is_digit_not_space)

lemma strip_digits: "list_all is_digit s \<Longrightarrow> strip s = s"
proof -
  assume a: "list_all is_digit s"
  then have "list_all is_digit (rev s)" by (simp add: list_all_iff)
  with a show ?thesis by (simp add: strip_def dropWhile_space_digits)
qed

lemma is_digit_not_underscore: "is_digit c \<Longrightarrow> c \<noteq> CHR ''_'' \<and> c \<noteq> CHR ''-'' \<and> c \<noteq> CHR ''+'' \<and> c \<noteq> CHR ''.''"
  by (auto simp add: is_digit_def)

lemma underscores_ok_digits: "list_all is_digit s \<Longrightarrow> underscores_ok s"
  by (induction s rule: underscores_ok.induct) (auto simp add: is_digit_not_underscore)

lemma takeWhile_digits:
  "list_all is_digit s \<Longrightarrow> takeWhile (\<lambda>c. is_digit c \<or> c = CHR ''_'') s = s"
  by (induction s) auto

lemma filter_digits: "list_all is_digit s \<Longrightarrow> filter is_digit s = s"
  by (induction s) auto

lemma py_int_isdecimal:
  assumes "isdecimal s"
  shows "py_int s =
    (if length s > int_max_str_digits then Inl (int_limit_error (length s))
     else Inr (int (digits_value s)))"
proof -
  from assms have ne: "s \<noteq> []" and d: "list_all is_digit s" by (simp_all add: isdecimal_def)
  from ne d have h: "is_digit (hd s)" by (cases s) simp_all
  then have hd: "hd s \<noteq> CHR ''_'' \<and> hd s \<noteq> CHR ''-'' \<and> hd s \<noteq> CHR ''+''"
    using is_digit_not_underscore by blast
  show ?thesis
    unfolding py_int_def Let_def strip_digits [OF d]
    using ne hd by (simp add: takeWhile_digits [OF d] filter_digits [OF d] underscores_ok_digits [OF d])
qed

lemma length_str_nat_le: "0 < k \<Longrightarrow> length (str_nat n) \<le> k \<longleftrightarrow> n < 10 ^ k"
proof (induction n arbitrary: k rule: str_nat.induct)
  case (1 n)
  show ?case
  proof (cases "n < 10")
    case True
    have "(10::nat) ^ 1 \<le> 10 ^ k" using "1.prems" by (intro power_increasing) simp_all
    with True have "n < 10 ^ k" by simp
    moreover have "length (str_nat n) = 1" using True by (subst str_nat.simps) simp
    ultimately show ?thesis using "1.prems" by simp
  next
    case False
    have l: "length (str_nat n) = Suc (length (str_nat (n div 10)))"
      using False by (subst str_nat.simps) simp
    show ?thesis
    proof (cases "k = 1")
      case True
      have "0 < length (str_nat (n div 10))" using str_nat_nonempty [of "n div 10"] by simp
      with True False l show ?thesis by simp
    next
      case k: False
      with "1.prems" obtain j where j: "k = Suc j" "0 < j" by (cases k) auto
      from "1.IH" [OF False j(2)]
      have "length (str_nat (n div 10)) \<le> j \<longleftrightarrow> n div 10 < 10 ^ j" .
      also have "\<dots> \<longleftrightarrow> n < 10 ^ j * 10" by (simp add: div_less_iff_less_mult)
      finally show ?thesis by (simp add: l j(1) mult.commute)
    qed
  qed
qed

lemma str_int_nonneg:
  assumes "0 \<le> i" and "i < 10 ^ int_max_str_digits"
  shows "str_int i = Inr (str_nat (nat i))"
proof -
  have p: "0 < int_max_str_digits" by (simp add: int_max_str_digits_def)
  from assms have "nat i < 10 ^ int_max_str_digits"
    by (metis nat_less_iff of_nat_numeral of_nat_power)
  then have "length (str_nat (nat i)) \<le> int_max_str_digits" by (simp add: length_str_nat_le [OF p])
  with assms(1) show ?thesis by (simp add: str_int_def)
qed

lemma str_int_limit:
  assumes "10 ^ int_max_str_digits \<le> i"
  shows "str_int i = Inl str_limit_error"
proof -
  have p: "0 < int_max_str_digits" by (simp add: int_max_str_digits_def)
  from assms have "0 \<le> i" by (metis order_trans zero_le_numeral zero_le_power)
  with assms have "\<not> nat i < 10 ^ int_max_str_digits"
    by (metis nat_less_iff not_less of_nat_numeral of_nat_power)
  then have "\<not> length (str_nat (nat i)) \<le> int_max_str_digits"
    by (simp add: length_str_nat_le [OF p])
  with \<open>0 \<le> i\<close> show ?thesis by (simp add: str_int_def)
qed

lemma split_on_nonempty: "split_on sep s \<noteq> []"
  by (induction s) (auto split: list.splits)

lemma split_on_no_sep: "sep \<notin> set s \<Longrightarrow> split_on sep s = [s]"
  by (induction s) auto

lemma split_on_append: "sep \<notin> set x \<Longrightarrow> split_on sep (x @ sep # r) = x # split_on sep r"
  by (induction x) auto

lemma split_on_join:
  "xs \<noteq> [] \<Longrightarrow> list_all (\<lambda>x. sep \<notin> set x) xs \<Longrightarrow> split_on sep (str_join [sep] xs) = xs"
proof (induction xs rule: induct_list012)
  case 1
  then show ?case by simp
next
  case (2 x)
  then show ?case by (simp add: split_on_no_sep)
next
  case (3 x y zs)
  then show ?case by (simp add: split_on_append)
qed

lemma semver_gen_str_nat:
  "list_all (\<lambda>n. n < 10 ^ int_max_str_digits) ns \<Longrightarrow>
   semver_gen (map str_nat ns) = Inr (map int ns)"
proof (induction ns)
  case Nil
  then show ?case by simp
next
  case (Cons n ns)
  have p: "0 < int_max_str_digits" by (simp add: int_max_str_digits_def)
  from Cons.prems have "length (str_nat n) \<le> int_max_str_digits"
    by (simp add: length_str_nat_le [OF p])
  then have "py_int (str_nat n) = Inr (int n)"
    by (simp add: py_int_isdecimal [OF isdecimal_str_nat] digits_value_str_nat)
  with Cons show ?case by (simp add: isdecimal_str_nat)
qed

lemma str_nat_no_dot: "CHR ''.'' \<notin> set (str_nat n)"
  using str_nat_digits [of n] is_digit_not_underscore by (auto simp add: list_all_iff)

lemma vsn_gen_bounded:
  "list_all (\<lambda>i. 0 \<le> i \<and> i < 10 ^ int_max_str_digits) v \<Longrightarrow>
   vsn_gen v = Inr (map str_nat (map nat v))"
  by (induction v) (simp_all add: str_int_nonneg)

text \<open>
  C3, as the code has it. Formatting a sequence of non-negative integers of at most 4300
  digits each with \<^verbatim>\<open>vsn_to_semver\<close> and parsing the result with \<^verbatim>\<open>semver_to_vsn\<close> gives the
  sequence back, and neither call raises.
\<close>

theorem semver_roundtrip:
  assumes "\<forall>i\<in>set v. 0 \<le> i \<and> i < 10 ^ int_max_str_digits"
  shows "parse_format v = Inr v"
proof (cases "v = []")
  case True
  then show ?thesis
    by (simp add: parse_format_def semver_to_vsn_def vsn_to_semver_def isdecimal_def)
next
  case False
  from assms have b: "list_all (\<lambda>i. 0 \<le> i \<and> i < 10 ^ int_max_str_digits) v"
    by (simp add: list_all_iff)
  then have f: "vsn_to_semver v = Inr (str_join ''.'' (map str_nat (map nat v)))"
    by (simp only: vsn_to_semver_def vsn_gen_bounded sum.case)
  have nodot: "list_all (\<lambda>x. CHR ''.'' \<notin> set x) (map str_nat (map nat v))"
    by (simp add: list_all_iff str_nat_no_dot)
  have sp: "split_on CHR ''.'' (str_join ''.'' (map str_nat (map nat v))) = map str_nat (map nat v)"
    using False nodot by (intro split_on_join) simp_all
  have "list_all (\<lambda>n. n < 10 ^ int_max_str_digits) (map nat v)"
    using assms by (auto simp add: list_all_iff)
  then have "semver_gen (map str_nat (map nat v)) = Inr (map int (map nat v))"
    by (rule semver_gen_str_nat)
  then have "parse_format v = Inr (map int (map nat v))"
    by (simp only: parse_format_def f sum.case semver_to_vsn_def sp)
  moreover have "map int (map nat v) = v"
    using assms by (induction v) simp_all
  ultimately show ?thesis by simp
qed

theorem semver_roundtrip_witness:
  "vsn_to_semver [1, 20, 0, 305] = Inr ''1.20.0.305'' \<and>
   parse_format [1, 20, 0, 305] = Inr [1, 20, 0, 305]"
proof -
  have "(10::int) ^ 3 \<le> 10 ^ int_max_str_digits"
    by (intro power_increasing) (simp_all add: int_max_str_digits_def)
  then have h: "\<forall>i\<in>set [1, 20, 0, 305 :: int]. 0 \<le> i \<and> i < 10 ^ int_max_str_digits"
    by simp
  have s: "vsn_to_semver [1, 20, 0, 305] = Inr ''1.20.0.305''" by code_simp
  from semver_roundtrip [OF h] s show ?thesis by simp
qed

text \<open>
  Where the claim C3 as written fails: ten to the power 4300 has 4301 digits, \<^verbatim>\<open>str\<close> of it
  raises \<^verbatim>\<open>ValueError\<close>, and so does formatting a sequence that holds it.
\<close>

theorem semver_roundtrip_counterexample:
  "0 \<le> (10::int) ^ int_max_str_digits \<and>
   vsn_to_semver [10 ^ int_max_str_digits] = Inl str_limit_error \<and>
   parse_format [10 ^ int_max_str_digits] = Inl str_limit_error"
proof -
  have "str_int (10 ^ int_max_str_digits) = Inl str_limit_error"
    by (rule str_int_limit) simp
  then show ?thesis by (simp add: parse_format_def vsn_to_semver_def)
qed

lemma digit_char_numerals:
  "digit_char 0 = CHR ''0''" "digit_char (Suc 0) = CHR ''1''" "digit_char 2 = CHR ''2''"
  "digit_char 3 = CHR ''3''" "digit_char 4 = CHR ''4''" "digit_char 5 = CHR ''5''"
  "digit_char 6 = CHR ''6''" "digit_char 7 = CHR ''7''" "digit_char 8 = CHR ''8''"
  "digit_char 9 = CHR ''9''"
  by code_simp+

lemma str_join_Cons_Cons: "str_join sep ((c # x) # xs) = c # str_join sep (x # xs)"
  by (cases xs) simp_all

lemma join_split_on: "str_join [sep] (split_on sep s) = s"
proof (induction s)
  case Nil
  then show ?case by simp
next
  case (Cons c cs)
  show ?case
  proof (cases "c = sep")
    case True
    with Cons show ?thesis by (cases "split_on sep cs") simp_all
  next
    case False
    with Cons show ?thesis
      by (cases "split_on sep cs") (simp_all add: str_join_Cons_Cons split_on_nonempty)
  qed
qed

lemma split_on_segments: "list_all (\<lambda>g. sep \<notin> set g) (split_on sep s)"
  by (induction s) (auto split: list.splits)

lemma split_on_is_split: "is_split_on sep s (split_on sep s)"
  by (simp add: is_split_on_def split_on_nonempty split_on_segments join_split_on)

lemma is_split_on_unique:
  assumes "is_split_on sep s segs"
  shows "segs = split_on sep s"
proof -
  from assms have ne: "segs \<noteq> []" and ns: "list_all (\<lambda>g. sep \<notin> set g) segs"
    and j: "str_join [sep] segs = s"
    by (simp_all add: is_split_on_def)
  from split_on_join [OF ne ns] j show ?thesis by simp
qed

lemma is_digit_iff: "is_digit c \<longleftrightarrow> c \<in> set ''0123456789''"
proof
  assume d: "is_digit c"
  then have "digit_val c < 10" by (auto simp add: is_digit_def digit_val_def)
  then have "digit_val c \<in> {0, 1, 2, 3, 4, 5, 6, 7, 8, 9}" by auto
  moreover have "c = digit_char (digit_val c)" using d by (simp add: digit_char_val)
  ultimately show "c \<in> set ''0123456789''"
    by (auto simp add: digit_char_numerals)
next
  assume "c \<in> set ''0123456789''"
  then show "is_digit c" by (auto simp add: is_digit_def)
qed

lemma purely_decimal_iff: "purely_decimal g \<longleftrightarrow> isdecimal g"
  unfolding purely_decimal_def isdecimal_def list_all_iff is_digit_iff by blast

lemma foldl_digits_shift:
  "foldl (\<lambda>a c. 10 * a + digit_val c) a s = a * 10 ^ length s + foldl (\<lambda>a c. 10 * a + digit_val c) 0 s"
proof (induction s arbitrary: a)
  case Nil
  then show ?case by simp
next
  case (Cons c cs)
  have "foldl (\<lambda>a c. 10 * a + digit_val c) a (c # cs) =
        foldl (\<lambda>a c. 10 * a + digit_val c) (10 * a + digit_val c) cs" by simp
  also have "\<dots> = (10 * a + digit_val c) * 10 ^ length cs +
        foldl (\<lambda>a c. 10 * a + digit_val c) 0 cs" by (rule Cons.IH)
  also have "\<dots> = a * 10 ^ length (c # cs) + (digit_val c * 10 ^ length cs +
        foldl (\<lambda>a c. 10 * a + digit_val c) 0 cs)" by (simp add: algebra_simps)
  also have "digit_val c * 10 ^ length cs + foldl (\<lambda>a c. 10 * a + digit_val c) 0 cs =
        foldl (\<lambda>a c. 10 * a + digit_val c) (digit_val c) cs" by (rule Cons.IH [symmetric])
  finally show ?case by simp
qed

lemma decimal_value_digits: "decimal_value g = int (digits_value g)"
proof (induction g)
  case Nil
  then show ?case by (simp add: digits_value_def)
next
  case (Cons c cs)
  have "digits_value (c # cs) = digit_val c * 10 ^ length cs + digits_value cs"
    using foldl_digits_shift [of "digit_val c" cs] by (simp add: digits_value_def)
  with Cons show ?case by simp
qed

lemma semver_gen_short:
  "list_all (\<lambda>g. length g \<le> int_max_str_digits) (filter purely_decimal ss) \<Longrightarrow>
   semver_gen ss = Inr (map decimal_value (filter purely_decimal ss))"
proof (induction ss)
  case Nil
  then show ?case by simp
next
  case (Cons g ss)
  show ?case
  proof (cases "purely_decimal g")
    case False
    with Cons show ?thesis by (simp add: purely_decimal_iff)
  next
    case True
    then have d: "isdecimal g" by (simp add: purely_decimal_iff)
    from True Cons.prems have "length g \<le> int_max_str_digits" by simp
    then have "py_int g = Inr (decimal_value g)"
      by (simp add: py_int_isdecimal [OF d] decimal_value_digits)
    with True d Cons show ?thesis by simp
  qed
qed

lemma semver_gen_long:
  "\<not> list_all (\<lambda>g. length g \<le> int_max_str_digits) (filter purely_decimal ss) \<Longrightarrow>
   \<exists>n. int_max_str_digits < n \<and> semver_gen ss = Inl (int_limit_error n)"
proof (induction ss)
  case Nil
  then show ?case by simp
next
  case (Cons g ss)
  show ?case
  proof (cases "purely_decimal g")
    case False
    with Cons show ?thesis by (simp add: purely_decimal_iff)
  next
    case True
    then have d: "isdecimal g" by (simp add: purely_decimal_iff)
    show ?thesis
    proof (cases "length g \<le> int_max_str_digits")
      case False
      then have "py_int g = Inl (int_limit_error (length g))"
        by (simp add: py_int_isdecimal [OF d])
      with d False show ?thesis by (intro exI [of _ "length g"]) simp
    next
      case s: True
      then have "py_int g = Inr (decimal_value g)"
        by (simp add: py_int_isdecimal [OF d] decimal_value_digits)
      moreover from True s Cons.prems
      have "\<not> list_all (\<lambda>g. length g \<le> int_max_str_digits) (filter purely_decimal ss)" by simp
      from Cons.IH [OF this] obtain n where
        "int_max_str_digits < n" "semver_gen ss = Inl (int_limit_error n)" by blast
      ultimately show ?thesis using d by auto
    qed
  qed
qed

lemma digits_value_zero_iff:
  "list_all is_digit g \<Longrightarrow> digits_value g = 0 \<longleftrightarrow> list_all (\<lambda>c. c = CHR ''0'') g"
proof (induction g rule: rev_induct)
  case Nil
  then show ?case by (simp add: digits_value_def)
next
  case (snoc c g)
  have "digit_val c = 0 \<longleftrightarrow> c = CHR ''0''"
    using snoc.prems digit_char_val [of c] by (auto simp add: digit_char_numerals digit_val_def)
  with snoc show ?case by (simp add: digits_value_snoc)
qed

lemma str_nat_snoc: "0 < a \<Longrightarrow> d < 10 \<Longrightarrow> str_nat (10 * a + d) = str_nat a @ [digit_char d]"
  by (subst str_nat.simps) simp

lemma str_nat_small: "d < 10 \<Longrightarrow> str_nat d = [digit_char d]"
  by (subst str_nat.simps) simp

lemma dropWhile_all: "list_all P g \<Longrightarrow> dropWhile P g = []"
  by (induction g) simp_all

lemma str_nat_digits_value:
  "isdecimal g \<Longrightarrow> str_nat (digits_value g) = strip_zeros g"
proof (induction g rule: rev_induct)
  case Nil
  then show ?case by (simp add: isdecimal_def)
next
  case (snoc c g)
  from snoc.prems have dg: "list_all is_digit g" and dc: "is_digit c"
    by (simp_all add: isdecimal_def)
  from dc have lt: "digit_val c < 10" by (auto simp add: is_digit_def digit_val_def)
  show ?case
  proof (cases "digits_value g = 0")
    case True
    with dg have z: "list_all (\<lambda>c. c = CHR ''0'') g" by (simp add: digits_value_zero_iff)
    then have "dropWhile (\<lambda>c. c = CHR ''0'') (g @ [c]) = (if c = CHR ''0'' then [] else [c])"
      by (simp add: dropWhile_append dropWhile_all list_all_iff)
    then have "strip_zeros (g @ [c]) = [c]" by (simp add: strip_zeros_def)
    moreover have "str_nat (digits_value (g @ [c])) = [c]"
      using True lt dc by (simp add: digits_value_snoc str_nat_small digit_char_val)
    ultimately show ?thesis by simp
  next
    case False
    with dg have nz: "\<not> list_all (\<lambda>c. c = CHR ''0'') g" by (simp add: digits_value_zero_iff)
    then have ne: "g \<noteq> []" by auto
    from nz have dw: "dropWhile (\<lambda>c. c = CHR ''0'') g \<noteq> []"
      by (induction g) (auto split: if_splits)
    have ex: "\<exists>x\<in>set g. \<not> x = CHR ''0''"
      using nz by (simp add: list_all_iff)
    then obtain x where "x \<in> set g" "\<not> x = CHR ''0''" by blast
    then have app: "dropWhile (\<lambda>c. c = CHR ''0'') (g @ [c]) = dropWhile (\<lambda>c. c = CHR ''0'') g @ [c]"
      by (rule dropWhile_append1)
    have "strip_zeros (g @ [c]) = strip_zeros g @ [c]"
      unfolding strip_zeros_def Let_def app using dw by auto
    moreover have "isdecimal g" using ne dg by (simp add: isdecimal_def)
    moreover have "str_nat (digits_value (g @ [c])) = str_nat (digits_value g) @ [c]"
      using False lt dc by (simp add: digits_value_snoc str_nat_snoc digit_char_val)
    ultimately show ?thesis using snoc.IH by simp
  qed
qed

lemma length_strip_zeros: "g \<noteq> [] \<Longrightarrow> length (strip_zeros g) \<le> length g"
proof -
  assume "g \<noteq> []"
  then have "1 \<le> length g" by (cases g) simp_all
  moreover have "length (dropWhile (\<lambda>c. c = CHR ''0'') g) \<le> length g"
    by (rule length_dropWhile_le)
  ultimately show ?thesis by (simp add: strip_zeros_def Let_def)
qed

lemma str_int_decimal_value:
  assumes "purely_decimal g" and "length g \<le> int_max_str_digits"
  shows "str_int (decimal_value g) = Inr (strip_zeros g)"
proof -
  from assms(1) have d: "isdecimal g" by (simp add: purely_decimal_iff)
  then have ne: "g \<noteq> []" by (simp add: isdecimal_def)
  have "length (strip_zeros g) \<le> int_max_str_digits"
    using length_strip_zeros [OF ne] assms(2) by simp
  then show ?thesis
    by (simp add: decimal_value_digits str_int_def str_nat_digits_value [OF d])
qed

lemma vsn_gen_values:
  "list_all (\<lambda>g. length g \<le> int_max_str_digits) (filter purely_decimal ss) \<Longrightarrow>
   vsn_gen (map decimal_value (filter purely_decimal ss)) =
     Inr (map strip_zeros (filter purely_decimal ss))"
proof (induction ss)
  case Nil
  then show ?case by simp
next
  case (Cons g ss)
  show ?case
  proof (cases "purely_decimal g")
    case False
    with Cons show ?thesis by simp
  next
    case True
    with Cons.prems have "length g \<le> int_max_str_digits" by simp
    with True have "str_int (decimal_value g) = Inr (strip_zeros g)"
      by (rule str_int_decimal_value)
    with True Cons show ?thesis by simp
  qed
qed

text \<open>
  C7, as the code has it. The segments of the string between dots are the one way to cut
  the string at every dot. When each segment that is purely decimal digits has at most 4300
  of them, \<^verbatim>\<open>semver_to_vsn\<close> returns those segments, in their order, each as its integer
  value, and formatting that result writes each kept segment without its leading zeros;
  when one of them is longer, \<^verbatim>\<open>semver_to_vsn\<close> raises the \<^verbatim>\<open>ValueError\<close> of \<^verbatim>\<open>int\<close>.
  Segments that are not purely decimal digits never raise; \<^verbatim>\<open>1.02.x.3\<close> parses to 1, 2, 3.
\<close>

theorem semver_to_vsn_spec:
  "is_split_on CHR ''.'' s (split_on CHR ''.'' s) \<and>
   (\<forall>segs. is_split_on CHR ''.'' s segs \<longrightarrow> segs = split_on CHR ''.'' s) \<and>
   (list_all (\<lambda>g. length g \<le> int_max_str_digits) (filter purely_decimal (split_on CHR ''.'' s)) \<longrightarrow>
      semver_to_vsn s = Inr (map decimal_value (filter purely_decimal (split_on CHR ''.'' s))) \<and>
      vsn_to_semver (map decimal_value (filter purely_decimal (split_on CHR ''.'' s))) =
        Inr (str_join ''.'' (map strip_zeros (filter purely_decimal (split_on CHR ''.'' s))))) \<and>
   (\<not> list_all (\<lambda>g. length g \<le> int_max_str_digits) (filter purely_decimal (split_on CHR ''.'' s)) \<longrightarrow>
      (\<exists>n. int_max_str_digits < n \<and> semver_to_vsn s = Inl (int_limit_error n))) \<and>
   semver_to_vsn ''1.02.x.3'' = Inr [1, 2, 3]"
proof (intro conjI allI impI)
  show "is_split_on CHR ''.'' s (split_on CHR ''.'' s)" by (rule split_on_is_split)
next
  fix segs
  assume "is_split_on CHR ''.'' s segs"
  then show "segs = split_on CHR ''.'' s" by (rule is_split_on_unique)
next
  assume "list_all (\<lambda>g. length g \<le> int_max_str_digits) (filter purely_decimal (split_on CHR ''.'' s))"
  then show "semver_to_vsn s = Inr (map decimal_value (filter purely_decimal (split_on CHR ''.'' s)))"
    by (simp only: semver_to_vsn_def semver_gen_short)
next
  assume "list_all (\<lambda>g. length g \<le> int_max_str_digits) (filter purely_decimal (split_on CHR ''.'' s))"
  then show "vsn_to_semver (map decimal_value (filter purely_decimal (split_on CHR ''.'' s))) =
     Inr (str_join ''.'' (map strip_zeros (filter purely_decimal (split_on CHR ''.'' s))))"
    by (simp only: vsn_to_semver_def vsn_gen_values sum.case)
next
  assume "\<not> list_all (\<lambda>g. length g \<le> int_max_str_digits) (filter purely_decimal (split_on CHR ''.'' s))"
  then show "\<exists>n. int_max_str_digits < n \<and> semver_to_vsn s = Inl (int_limit_error n)"
    unfolding semver_to_vsn_def by (rule semver_gen_long)
next
  show "semver_to_vsn ''1.02.x.3'' = Inr [1, 2, 3]" by code_simp
qed

theorem semver_to_vsn_spec_witness:
  "split_on CHR ''.'' ''1.02.x.3'' = [''1'', ''02'', ''x'', ''3''] \<and>
   semver_to_vsn ''1.02.x.3'' = Inr [1, 2, 3] \<and>
   vsn_to_semver [1, 2, 3] = Inr ''1.2.3''"
proof -
  have a: "is_split_on CHR ''.'' ''1.02.x.3'' [''1'', ''02'', ''x'', ''3'']"
    by (simp add: is_split_on_def)
  have b: "vsn_to_semver [1, 2, 3] = Inr ''1.2.3''" by code_simp
  from semver_to_vsn_spec [of "''1.02.x.3''"]
  have "[''1'', ''02'', ''x'', ''3''] = split_on CHR ''.'' ''1.02.x.3''"
    and "semver_to_vsn ''1.02.x.3'' = Inr [1, 2, 3]"
    using a by blast+
  with b show ?thesis by simp
qed

lemma semver_to_vsn_nines:
  assumes "int_max_str_digits < n"
  shows "semver_to_vsn (replicate n CHR ''9'') = Inl (int_limit_error n)"
proof -
  have d: "is_digit CHR ''9''" by (simp add: is_digit_def)
  from assms have n: "0 < n" by simp
  then have dec: "isdecimal (replicate n CHR ''9'')"
    using d by (auto simp add: isdecimal_def list_all_iff)
  have "CHR ''.'' \<notin> set (replicate n CHR ''9'')" by auto
  then have sp: "split_on CHR ''.'' (replicate n CHR ''9'') = [replicate n CHR ''9'']"
    by (rule split_on_no_sep)
  have "py_int (replicate n CHR ''9'') = Inl (int_limit_error n)"
    using assms by (simp add: py_int_isdecimal [OF dec])
  then show ?thesis by (simp only: semver_to_vsn_def sp semver_gen.simps dec if_True sum.case)
qed

text \<open>
  Where the claim C7 as written fails: a string of 4301 nines is one segment of decimal
  digits, and \<^verbatim>\<open>semver_to_vsn\<close> raises on it instead of returning its value.
\<close>

theorem semver_to_vsn_spec_counterexample:
  "purely_decimal (replicate 4301 CHR ''9'') \<and>
   semver_to_vsn (replicate 4301 CHR ''9'') = Inl (int_limit_error 4301)"
proof
  have "is_digit CHR ''9''" by (simp add: is_digit_def)
  then have "isdecimal (replicate 4301 CHR ''9'')"
    unfolding isdecimal_def list_all_iff by (metis in_set_replicate replicate_empty zero_neq_numeral)
  then show "purely_decimal (replicate 4301 CHR ''9'')" by (simp only: purely_decimal_iff)
next
  show "semver_to_vsn (replicate 4301 CHR ''9'') = Inl (int_limit_error 4301)"
    by (rule semver_to_vsn_nines) (simp add: int_max_str_digits_def)
qed

section \<open>What \<^verbatim>\<open>_init_module\<close> leaves alone\<close>

lemma init_sys_path_frame:
  "snd (init_sys_path s b l) = s\<lparr>sys_path := sys_path (snd (init_sys_path s b l))\<rparr>"
  by (simp add: init_sys_path_def split: sum.splits list.splits)

lemma init_sys_path_root_level: "root_level (snd (init_sys_path s b l)) = root_level s"
  by (subst init_sys_path_frame) simp

lemma init_sys_path_fs: "fs (snd (init_sys_path s b l)) = fs s"
  by (subst init_sys_path_frame) simp

lemma init_module_root_level: "root_level (snd (init_module s)) = root_level s"
  by (simp add: init_module_def Let_def init_sys_path_root_level)

lemma init_module_fs: "fs (snd (init_module s)) = fs s"
  by (simp add: init_module_def Let_def init_sys_path_fs)

section \<open>Properties of \<^verbatim>\<open>init_log\<close> with the level NONE\<close>

lemma xor_threshold: "((2::int) XOR 31) - 1 = 28"
  by simp

lemma LOG_LEVELS_NONE: "LOG_LEVELS ''NONE'' = Some (- 1)"
  by (simp add: LOG_LEVELS_def)

lemma init_log_none:
  "upper level = ''NONE'' \<Longrightarrow> init_log s level logdir logname = (Inr (), s\<lparr>log_disable := 28\<rparr>)"
  by (simp add: init_log_def LOG_LEVELS_NONE logging_disable_def xor_threshold)

lemma upper_none: "upper ''none'' = ''NONE''" "upper ''NONE'' = ''NONE''" "upper ''None'' = ''NONE''"
  by code_simp+

text \<open>
  C1. What the code does with the level NONE: the call returns without touching the file
  system or the log directory, and sets the disable threshold to 28, the value of
  \<^verbatim>\<open>(2^31)-1\<close> with \<^verbatim>\<open>^\<close> read as exclusive or. Calls at WARNING, ERROR and CRITICAL are
  above that threshold and stay enabled.
\<close>

theorem init_log_none_leaves_critical_enabled:
  "init_log booted ''NONE'' (Some ''/opt/riak/newlog'') None = (Inr (), booted\<lparr>log_disable := 28\<rparr>) \<and>
   init_log booted ''none'' None None = (Inr (), booted\<lparr>log_disable := 28\<rparr>) \<and>
   fs (snd (init_log booted ''NONE'' (Some ''/opt/riak/newlog'') None)) = fs booted \<and>
   LOG_DIR (snd (init_log booted ''NONE'' (Some ''/opt/riak/newlog'') None)) = LOG_DIR booted \<and>
   isEnabledFor (snd (init_log booted ''NONE'' (Some ''/opt/riak/newlog'') None)) CRITICAL \<and>
   isEnabledFor (snd (init_log booted ''NONE'' (Some ''/opt/riak/newlog'') None)) ERROR \<and>
   isEnabledFor (snd (init_log booted ''NONE'' (Some ''/opt/riak/newlog'') None)) WARNING"
proof -
  have "root_level booted = root_level demo"
    unfolding booted_def by (rule init_module_root_level)
  then have r: "root_level booted = WARNING" by (simp add: demo_def)
  show ?thesis
    by (simp add: init_log_none upper_none isEnabledFor_def r CRITICAL_def ERROR_def WARNING_def)
qed

section \<open>Properties of \<^verbatim>\<open>resolve_conf_path\<close>\<close>

lemma startswith_braces:
  "startswith (''{{'' @ u) ''{{''" "\<not> startswith (''{{'' @ u) ''~''"
  by (simp_all add: startswith_def)

lemma py_index_braces:
  "py_index (''{{'' @ u) ''}}'' = map_option (\<lambda>i. i + 2) (py_index u ''}}'')"
  by (simp add: startswith_def option.map_comp comp_def)

lemma py_index_no_brace:
  "CHR ''}'' \<notin> set t \<Longrightarrow> py_index (t @ ''}}'' @ rest) ''}}'' = Some (length t)"
  by (induction t) (auto simp add: startswith_def)

lemma resolve_token:
  assumes "py_index (t @ ''}}'' @ tail) ''}}'' = Some (length t)"
  shows "resolve_conf_path s (''{{'' @ t @ ''}}'' @ tail) =
     (case stache_map s (lower (strip t)) of
        None \<Rightarrow> Inl (KeyError (lower (strip t)))
      | Some repl \<Rightarrow>
          (case tail of
             [] \<Rightarrow> Inl IndexError
           | t0 # r \<Rightarrow>
               if t0 = CHR ''/'' then Inr (abspath s (repl @ tail))
               else Inr (abspath s (path_join repl tail))))"
proof -
  have i: "py_index (''{{'' @ t @ ''}}'' @ tail) ''}}'' = Some (length t + 2)"
    using assms by (simp only: py_index_braces) simp
  have tok: "take (length t + 2 - 2) (drop 2 (''{{'' @ t @ ''}}'' @ tail)) = t" by simp
  have tl: "drop (length t + 2 + 2) (''{{'' @ t @ ''}}'' @ tail) = tail" by simp
  show ?thesis
    unfolding resolve_conf_path_def
    by (simp only: startswith_braces i tok tl if_True if_False option.case Let_def)
       (simp add: fspath_seps_def split: option.splits list.splits)
qed

lemma stache_map_None: "stache_map s k = None \<longleftrightarrow> k \<notin> token_keys"
  by (simp add: stache_map_def token_keys_def)

lemma stache_map_log: "stache_map s ''log'' = Some (LOG_DIR s)"
  by (simp add: stache_map_def)

text \<open>
  C5. A path that opens with a token that is not one of the seven keys, once trimmed and
  lower-cased, makes \<^verbatim>\<open>resolve_conf_path\<close> raise \<^verbatim>\<open>KeyError\<close> with that token: the lookup's
  own exception, whatever the \<^verbatim>\<open>debug\<close> flag, and none of the parameter errors. The first
  hypothesis says that the closing marker after \<open>t\<close> is the first one in the path.
\<close>

theorem resolve_unknown_token:
  assumes "py_index (t @ ''}}'' @ rest) ''}}'' = Some (length t)"
    and "lower (strip t) \<notin> token_keys"
  shows "resolve_conf_path s (''{{'' @ t @ ''}}'' @ rest) = Inl (KeyError (lower (strip t)))"
proof -
  from assms(2) have "stache_map s (lower (strip t)) = None" by (simp add: stache_map_None)
  then show ?thesis by (simp only: resolve_token [OF assms(1)] option.case)
qed

theorem resolve_unknown_token_witness:
  "resolve_conf_path booted ''{{bogus}}/x'' = Inl (KeyError ''bogus'') \<and>
   resolve_conf_path (booted\<lparr>debug := True\<rparr>) ''{{ Bogus }}/x'' = Inl (KeyError ''bogus'')"
proof -
  have i: "py_index (''bogus'' @ ''}}'' @ ''/x'') ''}}'' = Some (length ''bogus'')"
    by (rule py_index_no_brace) simp
  have j: "py_index ('' Bogus '' @ ''}}'' @ ''/x'') ''}}'' = Some (length '' Bogus '')"
    by (rule py_index_no_brace) simp
  have l: "lower (strip ''bogus'') = ''bogus''" "lower (strip '' Bogus '') = ''bogus''"
    by code_simp+
  have k: "''bogus'' \<notin> token_keys" by (simp add: token_keys_def)
  from resolve_unknown_token [OF i, of booted] resolve_unknown_token [OF j, of "booted\<lparr>debug := True\<rparr>"]
  show ?thesis using l k by simp
qed

text \<open>
  C10. A recognized token with nothing after the closing marker: the tail is empty, reading
  its first character raises \<^verbatim>\<open>IndexError\<close>, and the base directory is not returned.
\<close>

theorem resolve_empty_tail:
  assumes "py_index (t @ ''}}'') ''}}'' = Some (length t)"
    and "lower (strip t) \<in> token_keys"
  shows "resolve_conf_path s (''{{'' @ t @ ''}}'') = Inl IndexError"
proof -
  from assms(2) obtain repl where "stache_map s (lower (strip t)) = Some repl"
    using stache_map_None [of s "lower (strip t)"] by auto
  with resolve_token [of t "[]" s] assms(1) show ?thesis by simp
qed

theorem resolve_empty_tail_witness:
  "resolve_conf_path booted ''{{log}}'' = Inl IndexError \<and>
   resolve_conf_path booted ''{{ Log }}'' = Inl IndexError"
proof -
  have i: "py_index (''log'' @ ''}}'') ''}}'' = Some (length ''log'')"
    using py_index_no_brace [of "''log''" "[]"] by simp
  have j: "py_index ('' Log '' @ ''}}'') ''}}'' = Some (length '' Log '')"
    using py_index_no_brace [of "'' Log ''" "[]"] by simp
  have l: "lower (strip ''log'') = ''log''" "lower (strip '' Log '') = ''log''"
    by code_simp+
  have k: "''log'' \<in> token_keys" by (simp add: token_keys_def)
  from resolve_empty_tail [OF i, of booted] resolve_empty_tail [OF j, of booted]
  show ?thesis using l k by simp
qed

section \<open>Properties of the validators\<close>

lemma isfile_not_isdir: "isfile s p \<Longrightarrow> \<not> isdir s p"
  by (auto simp add: isfile_def isdir_def split: option.splits)

lemma demo_access:
  "isdir booted ''/var/wo''" "access booted ''/var/wo'' W_OK" "\<not> access booted ''/var/wo'' R_OK"
  "isdir booted ''/var/ro''" "access booted ''/var/ro'' R_OK" "\<not> access booted ''/var/ro'' W_OK"
  "isfile booted ''/opt/riak/etc/names.txt''"
  by (simp_all add: booted_def init_module_fs isdir_def isfile_def access_def demo_def demo_fs_def
      dir_node_def file_node_def W_OK_def R_OK_def)

text \<open>
  C6. \<^verbatim>\<open>ReadableAbsDir\<close> returns its argument unchanged exactly when the path is an existing
  directory that the process may write; a path that is not a directory, a plain file among
  them, fails with the parameter value error; a directory that may be written but not read
  passes, and one that may be read but not written fails.
\<close>

theorem ReadableAbsDir_contract:
  "(ReadableAbsDir s D = Inr D \<longleftrightarrow> isdir s D \<and> access s D W_OK) \<and>
   (\<forall>r. ReadableAbsDir s D = Inr r \<longrightarrow> r = D) \<and>
   (\<not> isdir s D \<longrightarrow>
      ReadableAbsDir s D = Inl (raise_param_error s (''not a directory: '' @ quoted D) False) \<and>
      raise_param_error s (''not a directory: '' @ quoted D) False =
        (if debug s then ParamValueError (''not a directory: '' @ quoted D)
         else ValueError (''not a directory: '' @ quoted D))) \<and>
   (isfile s D \<longrightarrow>
      ReadableAbsDir s D = Inl (raise_param_error s (''not a directory: '' @ quoted D) False)) \<and>
   (isdir s D \<and> access s D W_OK \<and> \<not> access s D R_OK \<longrightarrow> ReadableAbsDir s D = Inr D) \<and>
   (isdir s D \<and> access s D R_OK \<and> \<not> access s D W_OK \<longrightarrow>
      ReadableAbsDir s D =
        Inl (raise_param_error s (''insufficient directory permissions: '' @ quoted D) False))"
  using isfile_not_isdir [of s D]
  by (auto simp add: ReadableAbsDir_def raise_param_error_def)

theorem ReadableAbsDir_contract_witness:
  "ReadableAbsDir booted ''/var/wo'' = Inr ''/var/wo'' \<and>
   ReadableAbsDir booted ''/var/ro'' =
     Inl (raise_param_error booted (''insufficient directory permissions: '' @ quoted ''/var/ro'') False) \<and>
   ReadableAbsDir booted ''/opt/riak/etc/names.txt'' =
     Inl (raise_param_error booted (''not a directory: '' @ quoted ''/opt/riak/etc/names.txt'') False)"
  using ReadableAbsDir_contract [of booted "''/var/wo''"]
    ReadableAbsDir_contract [of booted "''/var/ro''"]
    ReadableAbsDir_contract [of booted "''/opt/riak/etc/names.txt''"] demo_access
  by blast

section \<open>The \<^verbatim>\<open>debug\<close> flag and the kind of a parameter error\<close>

lemma debug_fs [simp]:
  "isdir (s\<lparr>debug := b\<rparr>) p = isdir s p" "isfile (s\<lparr>debug := b\<rparr>) p = isfile s p"
  "access (s\<lparr>debug := b\<rparr>) p m = access s p m" "path_exists (s\<lparr>debug := b\<rparr>) p = path_exists s p"
  "abspath (s\<lparr>debug := b\<rparr>) p = abspath s p" "expanduser (s\<lparr>debug := b\<rparr>) p = expanduser s p"
  "read_file (s\<lparr>debug := b\<rparr>) p = read_file s p"
  by (simp_all add: isdir_def isfile_def access_def path_exists_def abspath_def expanduser_def
      read_file_def)

lemma raise_kind:
  "raise_param_error (s\<lparr>debug := False\<rparr>) msg bt = generic (raise_param_error (s\<lparr>debug := True\<rparr>) msg bt)"
  "message (raise_param_error s msg bt) = msg"
  by (simp_all add: raise_param_error_def)

lemma same_but_kind_raise:
  "same_but_kind (Inl (raise_param_error (s\<lparr>debug := True\<rparr>) msg bt))
     (Inl (raise_param_error (s\<lparr>debug := False\<rparr>) msg bt))"
  by (simp add: same_but_kind_def raise_param_error_def)

lemma read_file_error: "read_file s f = Inl e \<Longrightarrow> generic e = e"
  by (auto simp add: read_file_def split: option.splits if_splits)

lemma same_but_kind_Inr: "same_but_kind (Inr v) (Inr v)"
  by (simp add: same_but_kind_def)

lemma kind_ReadableAbsDir:
  "same_but_kind (ReadableAbsDir (s\<lparr>debug := True\<rparr>) p) (ReadableAbsDir (s\<lparr>debug := False\<rparr>) p)"
  by (simp add: ReadableAbsDir_def same_but_kind_raise same_but_kind_Inr)

lemma kind_ReadableAbsFile:
  "same_but_kind (ReadableAbsFile (s\<lparr>debug := True\<rparr>) p) (ReadableAbsFile (s\<lparr>debug := False\<rparr>) p)"
  by (simp add: ReadableAbsFile_def same_but_kind_raise same_but_kind_Inr)

lemma kind_ReadableDir:
  "same_but_kind (ReadableDir (s\<lparr>debug := True\<rparr>) p) (ReadableDir (s\<lparr>debug := False\<rparr>) p)"
  by (simp add: ReadableDir_def kind_ReadableAbsDir)

lemma kind_ReadableFile:
  "same_but_kind (ReadableFile (s\<lparr>debug := True\<rparr>) p) (ReadableFile (s\<lparr>debug := False\<rparr>) p)"
  by (simp add: ReadableFile_def kind_ReadableAbsFile)

lemma kind_PossibleFile:
  "same_but_kind (PossibleFile (s\<lparr>debug := True\<rparr>) p) (PossibleFile (s\<lparr>debug := False\<rparr>) p)"
  by (simp add: PossibleFile_def Let_def same_but_kind_raise same_but_kind_Inr)

lemma kind_NamesListOrFile:
  "same_but_kind (NamesListOrFile (s\<lparr>debug := True\<rparr>) p) (NamesListOrFile (s\<lparr>debug := False\<rparr>) p)"
proof (cases "startswith p ''@''")
  case False
  then show ?thesis by (simp add: NamesListOrFile_def same_but_kind_Inr)
next
  case True
  show ?thesis
  proof (cases "ReadableFile (s\<lparr>debug := True\<rparr>) (drop 1 p)")
    case (Inl e)
    with kind_ReadableFile [of s "drop 1 p"] True show ?thesis
      by (auto simp add: NamesListOrFile_def same_but_kind_def split: sum.splits)
  next
    case (Inr f)
    with kind_ReadableFile [of s "drop 1 p"]
    have "ReadableFile (s\<lparr>debug := False\<rparr>) (drop 1 p) = Inr f"
      by (simp add: same_but_kind_def)
    with Inr True show ?thesis
      using read_file_error [of s f]
      by (auto simp add: NamesListOrFile_def same_but_kind_def split: sum.splits)
  qed
qed

text \<open>
  C9. For every validator, every state and every argument, the outcome with \<^verbatim>\<open>debug\<close> on
  and the outcome with \<^verbatim>\<open>debug\<close> off are the same value, or failures with the same message
  of which the second is the generic kind of the first; \<^verbatim>\<open>raise_param_error\<close> raises
  \<^verbatim>\<open>ParamTypeError\<close> or \<^verbatim>\<open>ParamValueError\<close> with \<^verbatim>\<open>debug\<close> on, \<^verbatim>\<open>TypeError\<close> or
  \<^verbatim>\<open>ValueError\<close> with it off, with the message it was given.
\<close>

theorem debug_changes_kind_only:
  "same_but_kind (PossibleFile (s\<lparr>debug := True\<rparr>) p) (PossibleFile (s\<lparr>debug := False\<rparr>) p) \<and>
   same_but_kind (ReadableAbsDir (s\<lparr>debug := True\<rparr>) p) (ReadableAbsDir (s\<lparr>debug := False\<rparr>) p) \<and>
   same_but_kind (ReadableAbsFile (s\<lparr>debug := True\<rparr>) p) (ReadableAbsFile (s\<lparr>debug := False\<rparr>) p) \<and>
   same_but_kind (ReadableDir (s\<lparr>debug := True\<rparr>) p) (ReadableDir (s\<lparr>debug := False\<rparr>) p) \<and>
   same_but_kind (ReadableFile (s\<lparr>debug := True\<rparr>) p) (ReadableFile (s\<lparr>debug := False\<rparr>) p) \<and>
   same_but_kind (NamesListOrFile (s\<lparr>debug := True\<rparr>) p) (NamesListOrFile (s\<lparr>debug := False\<rparr>) p) \<and>
   raise_param_error (s\<lparr>debug := True\<rparr>) msg bad_type =
     (if bad_type then ParamTypeError msg else ParamValueError msg) \<and>
   raise_param_error (s\<lparr>debug := False\<rparr>) msg bad_type =
     (if bad_type then TypeError msg else ValueError msg)"
  by (simp add: kind_PossibleFile kind_ReadableAbsDir kind_ReadableAbsFile kind_ReadableDir
      kind_ReadableFile kind_NamesListOrFile raise_param_error_def)

theorem debug_changes_kind_only_witness:
  "ReadableDir (booted\<lparr>debug := True\<rparr>) ''/gone'' = Inl (ParamValueError (''not a directory: '' @ quoted ''/gone'')) \<and>
   ReadableDir (booted\<lparr>debug := False\<rparr>) ''/gone'' = Inl (ValueError (''not a directory: '' @ quoted ''/gone'')) \<and>
   same_but_kind (ReadableDir (booted\<lparr>debug := True\<rparr>) ''/gone'') (ReadableDir (booted\<lparr>debug := False\<rparr>) ''/gone'')"
proof -
  have a: "abspath booted (expanduser booted ''/gone'') = ''/gone''" by code_simp
  have b: "\<not> isdir booted ''/gone''"
    by (simp add: booted_def init_module_fs isdir_def demo_def demo_fs_def)
  have "ReadableDir (booted\<lparr>debug := True\<rparr>) ''/gone'' = Inl (ParamValueError (''not a directory: '' @ quoted ''/gone''))"
    "ReadableDir (booted\<lparr>debug := False\<rparr>) ''/gone'' = Inl (ValueError (''not a directory: '' @ quoted ''/gone''))"
    using a b by (simp_all add: ReadableDir_def ReadableAbsDir_def raise_param_error_def)
  with debug_changes_kind_only [of booted "''/gone''"] show ?thesis by simp
qed

section \<open>Canonical absolute paths\<close>

lemma norm_comps_subset: "set (norm_comps n cs acc) \<subseteq> set cs \<union> set acc"
proof (induction cs arbitrary: acc)
  case Nil
  then show ?case by simp
next
  case (Cons c cs)
  have "set (butlast acc) \<subseteq> set acc" by (auto dest: in_set_butlastD)
  with Cons.IH [of acc] Cons.IH [of "acc @ [c]"] Cons.IH [of "butlast acc"]
  show ?case by (auto simp del: butlast.simps)
qed

lemma plain_butlast: "list_all plain acc \<Longrightarrow> list_all plain (butlast acc)"
  by (auto simp add: list_all_iff dest: in_set_butlastD)

lemma norm_comps_plain:
  "0 < n \<Longrightarrow> list_all plain acc \<Longrightarrow> list_all plain (norm_comps n cs acc)"
proof (induction cs arbitrary: acc)
  case Nil
  then show ?case by simp
next
  case (Cons c cs)
  have l: "acc \<noteq> [] \<Longrightarrow> last acc \<noteq> ''..''"
    using Cons.prems(2) by (auto simp add: list_all_iff plain_def dest: last_in_set)
  show ?case
  proof (cases "c = [] \<or> c = ''.''")
    case True
    with Cons show ?thesis by auto
  next
    case False
    show ?thesis
    proof (cases "c = ''..''")
      case True
      show ?thesis
      proof (cases "acc = []")
        case e: True
        with True Cons.prems Cons.IH [of "[]"] show ?thesis by simp
      next
        case e: False
        with True Cons.prems l Cons.IH [of "butlast acc"] plain_butlast [of acc]
        show ?thesis by (simp del: butlast.simps)
      qed
    next
      case n: False
      with False have "plain c" by (simp add: plain_def)
      with Cons.prems(2) have "list_all plain (acc @ [c])" by simp
      with Cons.IH [of "acc @ [c]"] Cons.prems(1) False n show ?thesis by simp
    qed
  qed
qed

lemma takeWhile_slashes:
  "b = [] \<or> hd b \<noteq> CHR ''/'' \<Longrightarrow> takeWhile (\<lambda>c. c = CHR ''/'') (replicate n CHR ''/'' @ b) = replicate n CHR ''/''"
  by (induction n) (auto simp add: takeWhile_eq_Nil_iff)

lemma dropWhile_slashes:
  "b = [] \<or> hd b \<noteq> CHR ''/'' \<Longrightarrow> dropWhile (\<lambda>c. c = CHR ''/'') (replicate n CHR ''/'' @ b) = b"
  by (induction n) (auto simp add: dropWhile_eq_self_iff)

lemma str_join_hd:
  "cs \<noteq> [] \<Longrightarrow> hd cs \<noteq> [] \<Longrightarrow> str_join sep cs \<noteq> [] \<and> hd (str_join sep cs) = hd (hd cs)"
  by (induction cs rule: induct_list012) auto

lemma canonical_abs_build:
  assumes n: "n = 1 \<or> n = 2"
    and pl: "list_all plain comps"
    and ns: "list_all (\<lambda>g. CHR ''/'' \<notin> set g) comps"
  shows "canonical_abs (replicate n CHR ''/'' @ str_join ''/'' comps)"
proof (cases "comps = []")
  case True
  with n show ?thesis by (auto simp add: canonical_abs_def)
next
  case False
  let ?b = "str_join ''/'' comps"
  from False pl have h: "hd comps \<noteq> []" by (cases comps) (auto simp add: plain_def)
  from False ns have hs: "CHR ''/'' \<notin> set (hd comps)" by (cases comps) auto
  from str_join_hd [OF False h, of "''/''"] have b: "?b \<noteq> []" "hd ?b = hd (hd comps)" by simp_all
  from h hs have "hd (hd comps) \<noteq> CHR ''/''" by (cases "hd comps") auto
  with b have nb: "?b = [] \<or> hd ?b \<noteq> CHR ''/''" by simp
  have sp: "split_on CHR ''/'' ?b = comps" using False ns by (rule split_on_join)
  show ?thesis
    unfolding canonical_abs_def Let_def takeWhile_slashes [OF nb] dropWhile_slashes [OF nb]
    using n pl sp by simp
qed

lemma canonical_abs_normpath:
  assumes "isabs p"
  shows "canonical_abs (normpath p)"
proof -
  from assms have ne: "p \<noteq> []" by (auto simp add: isabs_def startswith_def)
  define n :: nat where "n = (if startswith p ''//'' \<and> \<not> startswith p ''///'' then 2 else 1)"
  define comps where "comps = norm_comps n (split_on CHR ''/'' p) []"
  have n12: "n = 1 \<or> n = 2" by (simp add: n_def)
  then have np: "0 < n" by auto
  have pl: "list_all plain comps"
    unfolding comps_def using np by (rule norm_comps_plain) simp
  have "set comps \<subseteq> set (split_on CHR ''/'' p)"
    unfolding comps_def using norm_comps_subset [of n "split_on CHR ''/'' p" "[]"] by simp
  with split_on_segments [of "CHR ''/''" p]
  have ns: "list_all (\<lambda>g. CHR ''/'' \<notin> set g) comps" by (auto simp add: list_all_iff)
  have r: "replicate n CHR ''/'' @ str_join ''/'' comps \<noteq> []" using np by simp
  have "normpath p = replicate n CHR ''/'' @ str_join ''/'' comps"
    using assms ne r unfolding normpath_def isabs_def Let_def n_def [symmetric]
    by (simp add: comps_def n_def)
  with canonical_abs_build [OF n12 pl ns] show ?thesis by simp
qed

lemma startswith_slash: "startswith p ''/'' \<longleftrightarrow> p \<noteq> [] \<and> hd p = CHR ''/''"
  by (cases p) (simp_all add: startswith_def)

lemma isabs_join: "isabs c \<Longrightarrow> isabs (path_join c p)"
  by (cases c) (auto simp add: isabs_def path_join_def startswith_slash)

lemma canonical_abs_abspath: "isabs (cwd s) \<Longrightarrow> canonical_abs (abspath s p)"
  by (simp add: abspath_def canonical_abs_normpath isabs_join)

lemma path_join_one_sep:
  "\<not> startswith b ''/'' \<Longrightarrow> a \<noteq> [] \<Longrightarrow> last a \<noteq> CHR ''/'' \<Longrightarrow> path_join a b = a @ ''/'' @ b"
  by (simp add: path_join_def)

text \<open>
  C4, as the code has it. For a path that opens with a token of the table and has a
  non-empty tail: the token is trimmed and lower-cased before the lookup; when the tail
  begins with a slash the result is the absolute form of base and tail concatenated,
  otherwise of \<^verbatim>\<open>os.path.join\<close> of base and tail, which puts exactly one slash between them
  when the base is not empty and does not end with a slash; with an absolute working
  directory the result is a canonical absolute path; and \<^verbatim>\<open>{{log}}/sub/file.log\<close> resolves
  to the absolute form of the log directory joined with \<^verbatim>\<open>sub/file.log\<close> when the log
  directory is not empty and has no trailing slash.
\<close>

theorem resolve_token_tail:
  assumes "py_index (t @ ''}}'' @ tail) ''}}'' = Some (length t)"
    and "stache_map s (lower (strip t)) = Some base"
    and "tail \<noteq> []"
  shows "resolve_conf_path s (''{{'' @ t @ ''}}'' @ tail) =
           Inr (abspath s (if hd tail = CHR ''/'' then base @ tail else path_join base tail)) \<and>
         (hd tail \<noteq> CHR ''/'' \<and> base \<noteq> [] \<and> last base \<noteq> CHR ''/'' \<longrightarrow>
            path_join base tail = base @ ''/'' @ tail) \<and>
         (isabs (cwd s) \<longrightarrow>
            canonical_abs (abspath s (if hd tail = CHR ''/'' then base @ tail else path_join base tail))) \<and>
         (LOG_DIR s \<noteq> [] \<and> last (LOG_DIR s) \<noteq> CHR ''/'' \<longrightarrow>
            resolve_conf_path s ''{{log}}/sub/file.log'' =
              Inr (abspath s (path_join (LOG_DIR s) ''sub/file.log'')))"
proof (intro conjI impI)
  from assms(3) obtain t0 r where tl: "tail = t0 # r" by (cases tail) auto
  show "resolve_conf_path s (''{{'' @ t @ ''}}'' @ tail) =
      Inr (abspath s (if hd tail = CHR ''/'' then base @ tail else path_join base tail))"
    by (simp only: resolve_token [OF assms(1)] assms(2) option.case) (simp add: tl)
next
  assume "hd tail \<noteq> CHR ''/'' \<and> base \<noteq> [] \<and> last base \<noteq> CHR ''/''"
  with assms(3) show "path_join base tail = base @ ''/'' @ tail"
    by (simp add: path_join_one_sep startswith_slash)
next
  assume "isabs (cwd s)"
  then show "canonical_abs (abspath s (if hd tail = CHR ''/'' then base @ tail else path_join base tail))"
    by (rule canonical_abs_abspath)
next
  assume a: "LOG_DIR s \<noteq> [] \<and> last (LOG_DIR s) \<noteq> CHR ''/''"
  have i: "py_index (''log'' @ ''}}'' @ ''/sub/file.log'') ''}}'' = Some (length ''log'')"
    by (rule py_index_no_brace) simp
  have l: "lower (strip ''log'') = ''log''" by code_simp
  have "resolve_conf_path s (''{{'' @ ''log'' @ ''}}'' @ ''/sub/file.log'') =
      Inr (abspath s (LOG_DIR s @ ''/sub/file.log''))"
    by (simp only: resolve_token [OF i] l stache_map_log option.case) simp
  moreover have "path_join (LOG_DIR s) ''sub/file.log'' = LOG_DIR s @ ''/sub/file.log''"
    using a by (simp add: path_join_one_sep startswith_slash)
  ultimately show "resolve_conf_path s ''{{log}}/sub/file.log'' =
      Inr (abspath s (path_join (LOG_DIR s) ''sub/file.log''))" by simp
qed

lemma booted_globals:
  "LOG_DIR booted = ''/opt/riak/log''" "cwd booted = ''/opt/riak''" "ETC_DIR booted = ''/opt/riak/etc''"
  "REL_DIR booted = ''/opt/riak''" "PROG_NAME booted = ''riak-admin''" "BIN_DIR booted = ''/opt/riak/bin''"
  "LIB_DIR booted = ''/opt/riak/lib''"
  by code_simp+

theorem resolve_token_tail_witness:
  "resolve_conf_path booted ''{{log}}/sub/file.log'' = Inr ''/opt/riak/log/sub/file.log'' \<and>
   resolve_conf_path booted ''{{ ETC }}conf.d/../app.conf'' = Inr ''/opt/riak/etc/app.conf'' \<and>
   canonical_abs ''/opt/riak/etc/app.conf''"
proof -
  have i: "py_index ('' ETC '' @ ''}}'' @ ''conf.d/../app.conf'') ''}}'' = Some (length '' ETC '')"
    by (rule py_index_no_brace) simp
  have l: "lower (strip '' ETC '') = ''etc''" by code_simp
  have m: "stache_map booted (lower (strip '' ETC '')) = Some ''/opt/riak/etc''"
    by (simp add: l stache_map_def booted_globals)
  have n: "''conf.d/../app.conf'' \<noteq> []" by simp
  have j: "path_join ''/opt/riak/etc'' ''conf.d/../app.conf'' = ''/opt/riak/etc/conf.d/../app.conf''"
    by code_simp
  have a: "abspath booted ''/opt/riak/etc/conf.d/../app.conf'' = ''/opt/riak/etc/app.conf''"
    by code_simp
  have b: "abspath booted (path_join (LOG_DIR booted) ''sub/file.log'') = ''/opt/riak/log/sub/file.log''"
    by code_simp
  have c: "isabs (cwd booted)" by (simp add: booted_globals isabs_def startswith_def)
  have d: "LOG_DIR booted \<noteq> [] \<and> last (LOG_DIR booted) \<noteq> CHR ''/''" by (simp add: booted_globals)
  from resolve_token_tail [OF i m n] c d j a b show ?thesis by simp
qed

text \<open>
  Where the claim C4 as written fails: with the release root \<^verbatim>\<open>/\<close> (a program installed in
  \<^verbatim>\<open>/bin\<close>) and a tail that does not begin with a slash, \<^verbatim>\<open>os.path.join\<close> inserts no
  separator, and the result differs from the one a single inserted separator gives; and a
  token with an empty tail has no result at all.
\<close>

theorem resolve_token_tail_counterexample:
  "REL_DIR rooted = ''/'' \<and>
   resolve_conf_path rooted ''{{rel}}etc/app.conf'' = Inr ''/etc/app.conf'' \<and>
   abspath rooted (REL_DIR rooted @ ''/'' @ ''etc/app.conf'') = ''//etc/app.conf'' \<and>
   resolve_conf_path rooted ''{{log}}'' = Inl IndexError"
  by code_simp

section \<open>Properties of \<^verbatim>\<open>init_log\<close> with a log directory\<close>

























lemma LOG_DIR_update [simp]:
  "path_exists (s\<lparr>LOG_DIR := r\<rparr>) p = path_exists s p" "isdir (s\<lparr>LOG_DIR := r\<rparr>) p = isdir s p"
  "access (s\<lparr>LOG_DIR := r\<rparr>) p m = access s p m"
  "raise_param_error (s\<lparr>LOG_DIR := r\<rparr>) msg bt = raise_param_error s msg bt"
  by (simp_all add: path_exists_def isdir_def access_def raise_param_error_def)

lemma LOG_DIR_update_logfile [simp]:
  "logfile_of (s\<lparr>LOG_DIR := r\<rparr>) p nm = logfile_of s p nm"
  by (cases nm) (simp_all add: logfile_of_def abspath_def)




section \<open>Properties of the search path set up by \<^verbatim>\<open>_init_module\<close>\<close>

lemma same_dir_exists: "same_dir u a b \<Longrightarrow> fs u a \<noteq> None \<and> fs u b \<noteq> None"
  by (auto simp add: same_dir_def split: option.splits)

lemma same_dir_refl: "fs u a \<noteq> None \<Longrightarrow> same_dir u a a"
  by (auto simp add: same_dir_def split: option.splits)

lemma same_dir_trans: "same_dir u a b \<Longrightarrow> same_dir u c b \<Longrightarrow> same_dir u a c"
  by (auto simp add: same_dir_def split: option.splits)

lemma same_dir_fs: "fs t = fs u \<Longrightarrow> same_dir t a b = same_dir u a b"
  by (auto simp add: same_dir_def split: option.splits)

lemma samefile_same_dir:
  "fs u b \<noteq> None \<Longrightarrow> path_exists u a \<Longrightarrow> samefile u a b = Inr (same_dir u a b)"
  by (auto simp add: samefile_def same_dir_def path_exists_def split: option.splits)

lemma same_dir_missing: "\<not> path_exists u a \<Longrightarrow> \<not> same_dir u a b"
  by (auto simp add: same_dir_def path_exists_def split: option.splits)

lemma sp_scan_eq:
  "fs u l \<noteq> None \<Longrightarrow> sp_scan u l sp = Inr (list_ex (\<lambda>d. same_dir u d l) sp)"
  by (induction sp) (auto simp add: samefile_same_dir same_dir_missing)

lemma init_sys_path_found:
  assumes "list_ex (\<lambda>d. same_dir u d l) (sys_path u)"
  shows "init_sys_path u b l = (Inr (), u)"
proof -
  from assms obtain d where "same_dir u d l" by (auto simp add: list_ex_iff)
  then have "fs u l \<noteq> None" by (simp add: same_dir_exists)
  with assms show ?thesis by (simp add: init_sys_path_def sp_scan_eq)
qed

lemma init_sys_path_empty:
  "fs u l \<noteq> None \<Longrightarrow> sys_path u = [] \<Longrightarrow> init_sys_path u b l = (Inl IndexError, u)"
  by (simp add: init_sys_path_def sp_scan_eq)

lemma init_sys_path_add:
  assumes "fs u l \<noteq> None" and "\<not> list_ex (\<lambda>d. same_dir u d l) (sys_path u)"
    and "sys_path u \<noteq> []" and "path_exists u (hd (sys_path u)) \<longrightarrow> path_exists u b"
  shows "init_sys_path u b l =
    (Inr (), u\<lparr>sys_path := (if same_dir u (hd (sys_path u)) b
                              then hd (sys_path u) # l # tl (sys_path u)
                              else sys_path u @ [l])\<rparr>)"
proof -
  from assms(3) obtain sp0 rest where sp: "sys_path u = sp0 # rest" by (cases "sys_path u") auto
  have scan: "sp_scan u l (sys_path u) = Inr False"
    using assms(1,2) by (simp add: sp_scan_eq)
  have i: "init_sys_path u b l =
      (if path_exists u sp0
       then (case samefile u sp0 b of
               Inl e \<Rightarrow> (Inl e, u)
             | Inr same \<Rightarrow>
                 if same then (Inr (), u\<lparr>sys_path := sp0 # l # rest\<rparr>)
                 else (Inr (), u\<lparr>sys_path := sys_path u @ [l]\<rparr>))
       else (Inr (), u\<lparr>sys_path := sys_path u @ [l]\<rparr>))"
    unfolding init_sys_path_def scan by (simp add: sp)
  show ?thesis
  proof (cases "path_exists u sp0")
    case False
    with sp show ?thesis by (simp add: i same_dir_missing)
  next
    case True
    with assms(4) sp have "fs u b \<noteq> None" by (simp add: path_exists_def)
    with True have "samefile u sp0 b = Inr (same_dir u sp0 b)" by (simp add: samefile_same_dir)
    with sp True show ?thesis by (simp add: i)
  qed
qed

lemma init_module_unfold:
  "init_module s =
     (if isdir s (LIB_DIR (snd (init_module s))) \<and>
         access s (LIB_DIR (snd (init_module s))) (R_OK OR X_OK)
      then init_sys_path ((snd (init_module s))\<lparr>sys_path := sys_path s\<rparr>)
             (BIN_DIR (snd (init_module s))) (LIB_DIR (snd (init_module s)))
      else (Inr (), (snd (init_module s))\<lparr>sys_path := sys_path s\<rparr>))"
proof -
  define script where "script = abspath s (argv0 s)"
  define b where "b = dirname script"
  define r where "r = dirname b"
  define l where "l = path_join r ''lib''"
  define g where "g = s\<lparr>BIN_DIR := b, CUR_DIR := cwd s, ETC_DIR := path_join r ''etc'',
                 LIB_DIR := l, LOG_DIR := path_join r ''log'', REL_DIR := r,
                 SCH_DIR := path_join r ''schema'', PROG_NAME := basename script\<rparr>"
  have m: "init_module s =
      (if isdir g l \<and> access g l (R_OK OR X_OK) then init_sys_path g b l else (Inr (), g))"
    by (simp add: init_module_def Let_def g_def l_def r_def b_def script_def)
  have fg: "fs g = fs s" "sys_path g = sys_path s" "LIB_DIR g = l" "BIN_DIR g = b"
    by (simp_all add: g_def)
  have c: "isdir g l = isdir s l" "access g l (R_OK OR X_OK) = access s l (R_OK OR X_OK)"
    by (simp_all add: isdir_def access_def fg)
  have fr: "snd (init_sys_path g b l) = g\<lparr>sys_path := sys_path (snd (init_sys_path g b l))\<rparr>"
    by (rule init_sys_path_frame)
  have t: "(snd (init_module s))\<lparr>sys_path := sys_path s\<rparr> = g"
  proof (cases "isdir g l \<and> access g l (R_OK OR X_OK)")
    case True
    then have "snd (init_module s) = snd (init_sys_path g b l)" by (simp only: m if_P if_True)
    then have "(snd (init_module s))\<lparr>sys_path := sys_path s\<rparr> =
        (g\<lparr>sys_path := sys_path (snd (init_sys_path g b l))\<rparr>)\<lparr>sys_path := sys_path s\<rparr>"
      using fr by simp
    also have "\<dots> = g" using fg(2) by simp
    finally show ?thesis .
  next
    case False
    then have "snd (init_module s) = g" by (simp only: m if_not_P if_False snd_conv)
    with fg(2) show ?thesis by simp
  qed
  have lb: "LIB_DIR (snd (init_module s)) = l" "BIN_DIR (snd (init_module s)) = b"
    using arg_cong [OF t, of LIB_DIR] arg_cong [OF t, of BIN_DIR] fg by simp_all
  show ?thesis unfolding t lb using m c by simp
qed

lemma init_sys_path_contains:
  assumes "fs u l \<noteq> None" and "fst (init_sys_path u b l) = Inr ()"
  shows "list_ex (\<lambda>d. same_dir u d l) (sys_path (snd (init_sys_path u b l)))"
proof (cases "list_ex (\<lambda>d. same_dir u d l) (sys_path u)")
  case True
  then show ?thesis by (simp add: init_sys_path_found)
next
  case False
  have scan: "sp_scan u l (sys_path u) = Inr False"
    using assms(1) False by (simp add: sp_scan_eq)
  have ll: "same_dir u l l" using assms(1) by (rule same_dir_refl)
  show ?thesis
  proof (cases "sys_path u")
    case Nil
    with assms(2) show ?thesis unfolding init_sys_path_def scan by simp
  next
    case (Cons sp0 rest)
    with assms(2) ll show ?thesis unfolding init_sys_path_def scan
      by (auto split: if_splits sum.splits)
  qed
qed

lemma filter_none: "\<not> list_ex P xs \<Longrightarrow> filter P xs = []"
  by (induction xs) auto

lemma init_sys_path_count:
  "length (filter (\<lambda>d. same_dir u d l) (sys_path (snd (init_sys_path u b l)))) \<le>
     max 1 (length (filter (\<lambda>d. same_dir u d l) (sys_path u)))"
proof (cases "list_ex (\<lambda>d. same_dir u d l) (sys_path u)")
  case True
  then show ?thesis by (simp add: init_sys_path_found)
next
  case False
  then have z: "filter (\<lambda>d. same_dir u d l) (sys_path u) = []" by (rule filter_none)
  have "sys_path (snd (init_sys_path u b l)) = sys_path u \<or>
        (\<exists>sp0 rest. sys_path u = sp0 # rest \<and>
           (sys_path (snd (init_sys_path u b l)) = sp0 # l # rest \<or>
            sys_path (snd (init_sys_path u b l)) = sys_path u @ [l]))"
    by (auto simp add: init_sys_path_def split: sum.splits list.splits)
  then show ?thesis using z by (auto split: if_splits)
qed

lemma init_module_count:
  "length (filter (\<lambda>d. same_dir u d (LIB_DIR (snd (init_module u)))) (sys_path (snd (init_module u)))) \<le>
     max 1 (length (filter (\<lambda>d. same_dir u d (LIB_DIR (snd (init_module u)))) (sys_path u)))"
proof -
  define t where "t = snd (init_module u)"
  define l where "l = LIB_DIR t"
  define b where "b = BIN_DIR t"
  define g where "g = t\<lparr>sys_path := sys_path u\<rparr>"
  have fg: "fs g = fs u" "sys_path g = sys_path u" by (simp_all add: g_def t_def init_module_fs)
  have sd: "same_dir g = same_dir u" by (intro ext) (rule same_dir_fs [OF fg(1)])
  have unf: "init_module u =
      (if isdir u l \<and> access u l (R_OK OR X_OK) then init_sys_path g b l else (Inr (), g))"
    unfolding l_def b_def g_def t_def by (rule init_module_unfold)
  have "sys_path t = sys_path (snd (init_sys_path g b l)) \<or> sys_path t = sys_path u"
    unfolding t_def unf by (simp add: fg)
  with init_sys_path_count [of g l b] show ?thesis
    unfolding t_def [symmetric] l_def [symmetric] by (auto simp add: sd fg)
qed

lemma same_dir_sym_trans: "same_dir u a b \<Longrightarrow> same_dir u d a = same_dir u d b"
  by (auto simp add: same_dir_def split: option.splits)

text \<open>
  C2, as the code has it. When the candidate \<^verbatim>\<open>lib\<close> directory is a directory the process
  may read and search: if an entry of the search path is filesystem-identical to it, the
  call returns with the search path unchanged; if none is, the search path is not empty, and
  the binary directory exists unless the first entry does not, the candidate is inserted
  after the first entry when that entry is filesystem-identical to the binary directory
  and appended otherwise; after a run that returned, a second run whose candidate is
  filesystem-identical to the first leaves the search path as it is, whatever
  \<^verbatim>\<open>sys.argv[0]\<close> and the working directory are by then; and after two such runs,
  whether they returned or raised, the search path has at most one entry that is
  filesystem-identical to the candidate, unless it had more before.
\<close>

theorem init_module_search_path:
  assumes "isdir s (LIB_DIR (snd (init_module s)))" and "access s (LIB_DIR (snd (init_module s))) (R_OK OR X_OK)"
  shows
   "(list_ex (\<lambda>d. same_dir s d (LIB_DIR (snd (init_module s)))) (sys_path s) \<longrightarrow>
       fst (init_module s) = Inr () \<and> sys_path (snd (init_module s)) = sys_path s) \<and>
    (\<not> list_ex (\<lambda>d. same_dir s d (LIB_DIR (snd (init_module s)))) (sys_path s) \<and> sys_path s \<noteq> [] \<and>
     (path_exists s (hd (sys_path s)) \<longrightarrow> path_exists s (BIN_DIR (snd (init_module s)))) \<longrightarrow>
       fst (init_module s) = Inr () \<and>
       sys_path (snd (init_module s)) =
         (if same_dir s (hd (sys_path s)) (BIN_DIR (snd (init_module s))) then hd (sys_path s) # (LIB_DIR (snd (init_module s))) # tl (sys_path s)
          else sys_path s @ [(LIB_DIR (snd (init_module s)))])) \<and>
    (\<forall>a c. fst (init_module s) = Inr () \<and> same_dir s (LIB_DIR (snd (init_module ((snd (init_module s))\<lparr>argv0 := a, cwd := c\<rparr>)))) (LIB_DIR (snd (init_module s))) \<longrightarrow>
       fst (init_module ((snd (init_module s))\<lparr>argv0 := a, cwd := c\<rparr>)) = Inr () \<and> sys_path (snd (init_module ((snd (init_module s))\<lparr>argv0 := a, cwd := c\<rparr>))) = sys_path (snd (init_module s))) \<and>
    (\<forall>a c. same_dir s (LIB_DIR (snd (init_module ((snd (init_module s))\<lparr>argv0 := a, cwd := c\<rparr>))))
            (LIB_DIR (snd (init_module s))) \<longrightarrow>
       length (filter (\<lambda>d. same_dir s d (LIB_DIR (snd (init_module s)))) (sys_path (snd (init_module ((snd (init_module s))\<lparr>argv0 := a, cwd := c\<rparr>))))) \<le>
         max 1 (length (filter (\<lambda>d. same_dir s d (LIB_DIR (snd (init_module s)))) (sys_path s))))"
proof -
  define t where "t = snd (init_module s)"
  define l where "l = LIB_DIR t"
  define b where "b = BIN_DIR t"
  define g where "g = t\<lparr>sys_path := sys_path s\<rparr>"
  have ft: "fs t = fs s" by (simp add: t_def init_module_fs)
  have fg: "fs g = fs s" "sys_path g = sys_path s" by (simp_all add: g_def ft)
  have sd: "same_dir g = same_dir s" by (intro ext) (rule same_dir_fs [OF fg(1)])
  have pe: "path_exists g = path_exists s" by (intro ext) (simp add: path_exists_def fg)
  have a1: "isdir s l" and a2: "access s l (R_OK OR X_OK)"
    using assms by (simp_all add: l_def t_def)
  from a1 have le: "fs g l \<noteq> None" by (auto simp add: isdir_def fg split: option.splits)
  have unf: "init_module s =
      (if isdir s l \<and> access s l (R_OK OR X_OK) then init_sys_path g b l else (Inr (), g))"
    unfolding l_def b_def g_def t_def by (rule init_module_unfold)
  have m: "init_module s = init_sys_path g b l"
    by (simp only: unf a1 a2 simp_thms if_True)
  have tm: "t = snd (init_sys_path g b l)" by (simp add: t_def m)
  have found: "fst (init_module s) = Inr () \<and> sys_path t = sys_path s"
    if "list_ex (\<lambda>d. same_dir s d l) (sys_path s)"
  proof -
    from that have "init_sys_path g b l = (Inr (), g)"
      by (intro init_sys_path_found) (simp add: sd fg)
    then show ?thesis by (simp add: m tm fg)
  qed
  have add: "fst (init_module s) = Inr () \<and>
       sys_path t =
         (if same_dir s (hd (sys_path s)) b then hd (sys_path s) # l # tl (sys_path s)
          else sys_path s @ [l])"
    if h: "\<not> list_ex (\<lambda>d. same_dir s d l) (sys_path s) \<and> sys_path s \<noteq> [] \<and>
     (path_exists s (hd (sys_path s)) \<longrightarrow> path_exists s b)"
  proof -
    have "init_sys_path g b l =
      (Inr (), g\<lparr>sys_path := (if same_dir g (hd (sys_path g)) b
                              then hd (sys_path g) # l # tl (sys_path g)
                              else sys_path g @ [l])\<rparr>)"
      using le h by (intro init_sys_path_add) (simp_all add: sd pe fg)
    then show ?thesis by (simp add: m tm sd fg)
  qed
  have again: "fst (init_module (t\<lparr>argv0 := a, cwd := c\<rparr>)) = Inr () \<and>
      sys_path (snd (init_module (t\<lparr>argv0 := a, cwd := c\<rparr>))) = sys_path t"
    if h: "fst (init_module s) = Inr () \<and>
      same_dir s (LIB_DIR (snd (init_module (t\<lparr>argv0 := a, cwd := c\<rparr>)))) l" for a c
  proof -
    from h have "fst (init_sys_path g b l) = Inr ()" by (simp add: m)
    from init_sys_path_contains [OF le this]
    have c1: "list_ex (\<lambda>d. same_dir s d l) (sys_path t)" by (simp add: sd tm)
    define u where "u = t\<lparr>argv0 := a, cwd := c\<rparr>"
    define t2 where "t2 = snd (init_module u)"
    define l2 where "l2 = LIB_DIR t2"
    define b2 where "b2 = BIN_DIR t2"
    define g2 where "g2 = t2\<lparr>sys_path := sys_path u\<rparr>"
    have fu: "fs u = fs s" "sys_path u = sys_path t" by (simp_all add: u_def ft)
    have fg2: "fs g2 = fs s" "sys_path g2 = sys_path t"
      by (simp_all add: g2_def t2_def init_module_fs fu)
    from h have s2: "same_dir s l2 l" by (simp add: l2_def t2_def u_def)
    have "list_ex (\<lambda>d. same_dir g2 d l2) (sys_path g2)"
      using c1 s2 same_dir_trans [of s _ l l2]
      by (auto simp add: list_ex_iff same_dir_fs [OF fg2(1)] fg2(2))
    then have i: "init_sys_path g2 b2 l2 = (Inr (), g2)" by (rule init_sys_path_found)
    have unf2: "init_module u =
      (if isdir u l2 \<and> access u l2 (R_OK OR X_OK) then init_sys_path g2 b2 l2 else (Inr (), g2))"
      unfolding l2_def b2_def g2_def t2_def by (rule init_module_unfold)
    have "init_module u = (Inr (), g2)" by (simp only: unf2 i if_cancel)
    then have "fst (init_module u) = Inr () \<and> t2 = g2" by (simp add: t2_def)
    then show ?thesis by (simp add: u_def [symmetric] t2_def [symmetric] fg2)
  qed
  have twice: "length (filter (\<lambda>d. same_dir s d l) (sys_path (snd (init_module (t\<lparr>argv0 := a, cwd := c\<rparr>))))) \<le>
         max 1 (length (filter (\<lambda>d. same_dir s d l) (sys_path s)))"
    if h: "same_dir s (LIB_DIR (snd (init_module (t\<lparr>argv0 := a, cwd := c\<rparr>)))) l" for a c
  proof -
    define u where "u = t\<lparr>argv0 := a, cwd := c\<rparr>"
    define l2 where "l2 = LIB_DIR (snd (init_module u))"
    have fu: "fs u = fs s" "sys_path u = sys_path t" by (simp_all add: u_def ft)
    have su: "same_dir u = same_dir s" by (intro ext) (rule same_dir_fs [OF fu(1)])
    from h have "same_dir s l2 l" by (simp add: l2_def u_def)
    then have e: "(\<lambda>d. same_dir s d l2) = (\<lambda>d. same_dir s d l)"
      by (intro ext) (rule same_dir_sym_trans)
    have "length (filter (\<lambda>d. same_dir s d l2) (sys_path (snd (init_module u)))) \<le>
        max 1 (length (filter (\<lambda>d. same_dir s d l2) (sys_path t)))"
      using init_module_count [of u] by (simp add: su l2_def fu)
    moreover have "length (filter (\<lambda>d. same_dir s d l) (sys_path t)) \<le>
        max 1 (length (filter (\<lambda>d. same_dir s d l) (sys_path s)))"
      using init_module_count [of s] by (simp add: t_def l_def)
    ultimately show ?thesis unfolding e u_def [symmetric] by simp
  qed
  show ?thesis
    unfolding t_def [symmetric] l_def [symmetric] b_def [symmetric]
  proof (intro conjI allI impI)
    assume "list_ex (\<lambda>d. same_dir s d l) (sys_path s)"
    from found [OF this] show "fst (init_module s) = Inr ()" "sys_path t = sys_path s"
      by simp_all
  next
    assume "\<not> list_ex (\<lambda>d. same_dir s d l) (sys_path s) \<and> sys_path s \<noteq> [] \<and>
     (path_exists s (hd (sys_path s)) \<longrightarrow> path_exists s b)"
    from add [OF this] show "fst (init_module s) = Inr ()"
      "sys_path t =
         (if same_dir s (hd (sys_path s)) b then hd (sys_path s) # l # tl (sys_path s)
          else sys_path s @ [l])" by simp_all
  next
    fix a c
    assume "fst (init_module s) = Inr () \<and>
      same_dir s (LIB_DIR (snd (init_module (t\<lparr>argv0 := a, cwd := c\<rparr>)))) l"
    from again [OF this]
    show "fst (init_module (t\<lparr>argv0 := a, cwd := c\<rparr>)) = Inr ()"
      "sys_path (snd (init_module (t\<lparr>argv0 := a, cwd := c\<rparr>))) = sys_path t"
      by simp_all
  next
    fix a c
    assume "same_dir s (LIB_DIR (snd (init_module (t\<lparr>argv0 := a, cwd := c\<rparr>)))) l"
    then show "length (filter (\<lambda>d. same_dir s d l) (sys_path (snd (init_module (t\<lparr>argv0 := a, cwd := c\<rparr>))))) \<le>
         max 1 (length (filter (\<lambda>d. same_dir s d l) (sys_path s)))"
      by (rule twice)
  qed
qed

theorem init_module_search_path_witness:
  "sys_path booted = [''/opt/riak/bin'', ''/opt/riak/lib'', ''/usr/lib/python3'', ''/gone''] \<and>
   LIB_DIR (snd (init_module (booted\<lparr>argv0 := ''/srv/riak/bin/riak-admin'', cwd := ''/''\<rparr>))) =
     ''/srv/riak/lib'' \<and>
   sys_path (snd (init_module (booted\<lparr>argv0 := ''/srv/riak/bin/riak-admin'', cwd := ''/''\<rparr>))) =
     sys_path booted"
proof -
  have l: "LIB_DIR (snd (init_module demo)) = ''/opt/riak/lib''"
    and b: "BIN_DIR (snd (init_module demo)) = ''/opt/riak/bin''"
    and sp: "sys_path demo = [''/opt/riak/bin'', ''/usr/lib/python3'', ''/gone'']"
    by code_simp+
  have h1: "isdir demo (LIB_DIR (snd (init_module demo)))"
    and h2: "access demo (LIB_DIR (snd (init_module demo))) (R_OK OR X_OK)"
    unfolding l by code_simp+
  note T = init_module_search_path [OF h1 h2]
  have p2: "\<not> list_ex (\<lambda>d. same_dir demo d (LIB_DIR (snd (init_module demo)))) (sys_path demo) \<and>
     sys_path demo \<noteq> [] \<and>
     (path_exists demo (hd (sys_path demo)) \<longrightarrow> path_exists demo (BIN_DIR (snd (init_module demo))))"
    unfolding l b sp by code_simp
  have sb: "same_dir demo (hd (sys_path demo)) (BIN_DIR (snd (init_module demo)))"
    unfolding l b sp by code_simp
  from T [THEN conjunct2, THEN conjunct1, THEN mp, OF p2]
  have ok: "fst (init_module demo) = Inr ()"
    and s1: "sys_path booted = [''/opt/riak/bin'', ''/opt/riak/lib'', ''/usr/lib/python3'', ''/gone'']"
    using sb by (simp_all add: booted_def l sp)
  have l2: "LIB_DIR (snd (init_module (booted\<lparr>argv0 := ''/srv/riak/bin/riak-admin'', cwd := ''/''\<rparr>))) =
     ''/srv/riak/lib''" by code_simp
  have p3: "fst (init_module demo) = Inr () \<and>
     same_dir demo
       (LIB_DIR (snd (init_module ((snd (init_module demo))\<lparr>argv0 := ''/srv/riak/bin/riak-admin'', cwd := ''/''\<rparr>))))
       (LIB_DIR (snd (init_module demo)))"
    unfolding l l2 [unfolded booted_def] using ok by (simp, code_simp)
  from T [THEN conjunct2, THEN conjunct2, THEN conjunct1, THEN spec, THEN spec, THEN mp, OF p3]
  have "sys_path (snd (init_module (booted\<lparr>argv0 := ''/srv/riak/bin/riak-admin'', cwd := ''/''\<rparr>))) =
     sys_path booted" by (simp add: booted_def)
  with s1 l2 show ?thesis by simp
qed

text \<open>
  Where the claim C2 as written fails: with an empty search path there is no first entry to
  read, and with a first entry that exists and a binary directory that does not the
  comparison of the two raises; in both cases nothing is appended.
\<close>

theorem init_module_search_path_counterexample:
  "isdir demo ''/opt/riak/lib'' \<and> access demo ''/opt/riak/lib'' (R_OK OR X_OK) \<and>
   LIB_DIR (snd (init_module (demo\<lparr>sys_path := []\<rparr>))) = ''/opt/riak/lib'' \<and>
   fst (init_module (demo\<lparr>sys_path := []\<rparr>)) = Inl IndexError \<and>
   sys_path (snd (init_module (demo\<lparr>sys_path := []\<rparr>))) = [] \<and>
   LIB_DIR (snd (init_module (demo\<lparr>argv0 := ''/opt/riak/sbin/riak-admin''\<rparr>))) = ''/opt/riak/lib'' \<and>
   BIN_DIR (snd (init_module (demo\<lparr>argv0 := ''/opt/riak/sbin/riak-admin''\<rparr>))) = ''/opt/riak/sbin'' \<and>
   fst (init_module (demo\<lparr>argv0 := ''/opt/riak/sbin/riak-admin''\<rparr>)) =
     Inl (OSError ''FileNotFoundError: /opt/riak/sbin'') \<and>
   sys_path (snd (init_module (demo\<lparr>argv0 := ''/opt/riak/sbin/riak-admin''\<rparr>))) = sys_path demo"
  by code_simp

end
